theory Spec2Isabelle
  imports Complex_Main
begin

section \<open>JavaScript strings\<close>

text \<open>
  A JavaScript string is a sequence of UTF-16 code units, and every operation of
  \<^verbatim>\<open>src/index.js\<close> on strings (\<^verbatim>\<open>match\<close>, \<^verbatim>\<open>replace\<close>, \<^verbatim>\<open>toUpperCase\<close>, \<^verbatim>\<open>===\<close>)
  works on code units. A code unit is modelled by its number; \<open>js\<close> writes an ASCII
  literal of the source as its code units.
\<close>

type_synonym jsstring = "nat list"

definition js :: "string \<Rightarrow> jsstring" where
  "js s = map of_char s"

section \<open>The regular expression \<^verbatim>\<open>WORDLE_REGEX\<close>\<close>

text \<open>
  \<^verbatim>\<open>const WORDLE_REGEX = /Wordle\s+(\d+,?\d*)\s+([1-6X])\/(\d+)(\*?)/i;\<close>

  The pattern is a sequence of one-character atoms, each with a greedy quantifier, some of
  them inside (unnested) capture groups. The abstract syntax covers exactly that fragment.
\<close>

datatype cclass =
    Chr nat                     \<comment> \<open>a pattern character\<close>
  | ClassEscape_s               \<comment> \<open>\<^verbatim>\<open>\s\<close>\<close>
  | ClassEscape_d               \<comment> \<open>\<^verbatim>\<open>\d\<close>\<close>
  | Bracket "(nat \<times> nat) list"  \<comment> \<open>\<^verbatim>\<open>[...]\<close>, a list of ranges \<open>(lo, hi)\<close>; a single character is \<open>(c, c)\<close>\<close>

datatype quant =
    Once        \<comment> \<open>no quantifier\<close>
  | Optional    \<comment> \<open>\<^verbatim>\<open>?\<close>\<close>
  | Star        \<comment> \<open>\<^verbatim>\<open>*\<close>\<close>
  | Plus        \<comment> \<open>\<^verbatim>\<open>+\<close>\<close>

type_synonym atom = "cclass \<times> quant"

datatype part =
    A cclass quant      \<comment> \<open>an atom outside every group\<close>
  | G "atom list"       \<comment> \<open>a capture group\<close>

definition chr :: "char \<Rightarrow> cclass" where
  "chr c = Chr (of_char c)"

definition WORDLE_REGEX :: "part list" where
  "WORDLE_REGEX =
     [A (chr CHR ''W'') Once, A (chr CHR ''o'') Once, A (chr CHR ''r'') Once,
      A (chr CHR ''d'') Once, A (chr CHR ''l'') Once, A (chr CHR ''e'') Once,
      A ClassEscape_s Plus,
      G [(ClassEscape_d, Plus), (chr CHR '','', Optional), (ClassEscape_d, Star)],
      A ClassEscape_s Plus,
      G [(Bracket [(of_char CHR ''1'', of_char CHR ''6''), (of_char CHR ''X'', of_char CHR ''X'')], Once)],
      A (chr CHR ''/'') Once,
      G [(ClassEscape_d, Plus)],
      G [(chr CHR ''*'', Optional)]]"

text \<open>
  The flag \<^verbatim>\<open>i\<close>: two code units match when their canonical forms agree. Without the
  \<^verbatim>\<open>u\<close> flag the canonical form of a code unit is its upper-case mapping, except that a
  code unit from 128 on is never mapped below 128. The pattern holds ASCII characters only,
  so a code unit from 128 on matches none of its characters whatever its canonical form
  is, and the model leaves such code units as they are.
\<close>

definition canonicalize :: "nat \<Rightarrow> nat" where
  "canonicalize ch = (if 97 \<le> ch \<and> ch \<le> 122 then ch - 32 else ch)"

text \<open>
  \<^verbatim>\<open>\s\<close> is the white space and the line terminators of ECMAScript:
  TAB, LF, VT, FF, CR, SP, NBSP, U+1680, U+2000 to U+200A, U+2028, U+2029, U+202F, U+205F,
  U+3000 and U+FEFF. \<^verbatim>\<open>\d\<close> is \<^verbatim>\<open>0\<close> to \<^verbatim>\<open>9\<close>.
\<close>

definition is_white_space :: "nat \<Rightarrow> bool" where
  "is_white_space ch =
     ((9 \<le> ch \<and> ch \<le> 13) \<or> ch = 32 \<or> ch = 160 \<or> ch = 5760 \<or> (8192 \<le> ch \<and> ch \<le> 8202) \<or>
      ch = 8232 \<or> ch = 8233 \<or> ch = 8239 \<or> ch = 8287 \<or> ch = 12288 \<or> ch = 65279)"

definition is_digit :: "nat \<Rightarrow> bool" where
  "is_digit ch = (48 \<le> ch \<and> ch \<le> 57)"

fun class_matches :: "cclass \<Rightarrow> nat \<Rightarrow> bool" where
  "class_matches (Chr c) ch = (canonicalize c = canonicalize ch)"
| "class_matches ClassEscape_s ch = is_white_space (canonicalize ch)"
| "class_matches ClassEscape_d ch = is_digit (canonicalize ch)"
| "class_matches (Bracket rs) ch =
     list_ex (\<lambda>(lo, hi). list_ex (\<lambda>a. canonicalize a = canonicalize ch) [lo ..< Suc hi]) rs"

text \<open>
  Backtracking. A greedy quantifier over a one-character atom first takes as many code
  units as match and gives them back one at a time. \<open>quant_counts q n\<close> lists, in the order
  the matcher tries them, how many code units the atom may take when \<open>n\<close> code units in a
  row match its class. The matcher's result is the list of all the ways to match, in the
  order backtracking reaches them: the first one is the match that JavaScript returns.
\<close>

fun quant_counts :: "quant \<Rightarrow> nat \<Rightarrow> nat list" where
  "quant_counts Once n = (if 1 \<le> n then [1] else [])"
| "quant_counts Optional n = (if 1 \<le> n then [1, 0] else [0])"
| "quant_counts Star n = rev [0 ..< Suc n]"
| "quant_counts Plus n = rev [1 ..< Suc n]"

definition atom_opts :: "cclass \<Rightarrow> quant \<Rightarrow> jsstring \<Rightarrow> jsstring list" where
  "atom_opts c q s =
     map (\<lambda>k. drop k s) (quant_counts q (length (takeWhile (class_matches c) s)))"

fun match_atoms :: "atom list \<Rightarrow> jsstring \<Rightarrow> jsstring list" where
  "match_atoms [] s = [s]"
| "match_atoms ((c, q) # as) s = concat (map (match_atoms as) (atom_opts c q s))"

text \<open>
  \<open>match_parts ps s\<close>: the matches of the parts \<open>ps\<close> at the start of \<open>s\<close>, each with the
  texts its groups captured and the input left after it.
\<close>

fun match_parts :: "part list \<Rightarrow> jsstring \<Rightarrow> (jsstring list \<times> jsstring) list" where
  "match_parts [] s = [([], s)]"
| "match_parts (A c q # ps) s = concat (map (match_parts ps) (atom_opts c q s))"
| "match_parts (G as # ps) s =
     concat (map (\<lambda>r. map (\<lambda>(caps, rest). (take (length s - length r) s # caps, rest))
                          (match_parts ps r))
                 (match_atoms as s))"

text \<open>
  \<^verbatim>\<open>content.match(WORDLE_REGEX)\<close> with a regular expression without the \<^verbatim>\<open>g\<close> flag: the
  first match at the leftmost position where there is one, as the array of the matched
  text (index 0) and the captures (from index 1), or \<^verbatim>\<open>null\<close>.
\<close>

fun regexp_match :: "part list \<Rightarrow> jsstring \<Rightarrow> jsstring list option" where
  "regexp_match re [] =
     (case match_parts re [] of
        [] \<Rightarrow> None
      | (caps, rest) # _ \<Rightarrow> Some ([] # caps))"
| "regexp_match re (c # cs) =
     (case match_parts re (c # cs) of
        [] \<Rightarrow> regexp_match re cs
      | (caps, rest) # _ \<Rightarrow> Some (take (length (c # cs) - length rest) (c # cs) # caps))"

section \<open>\<^verbatim>\<open>parseWordleScore\<close>\<close>

text \<open>
  A JavaScript number that \<^verbatim>\<open>parseInt\<close> returns for a text of digits is a double holding
  an integer, or \<^verbatim>\<open>Infinity\<close>; \<^verbatim>\<open>NaN\<close> is the \<open>None\<close> of an option.
\<close>

datatype number = Num int | Infinity

text \<open>
  The double nearest to a non-negative integer \<open>n\<close> (ties to the even significand), as the
  runtime computes it for a decimal text: \<open>n\<close> itself below \<open>2^53\<close>; from there on \<open>n\<close> is
  cut to its 53 leading bits \<open>q\<close>, rounded up when the \<open>e\<close> bits cut off are more than half
  a unit of \<open>q\<close>, or exactly half and \<open>q\<close> is odd; \<^verbatim>\<open>Infinity\<close> when the result reaches \<open>2^1024\<close>.
\<close>

function bit_length :: "int \<Rightarrow> nat" where
  "bit_length n = (if n \<le> 0 then 0 else Suc (bit_length (n div 2)))"
  by pat_completeness auto
termination
  by (relation "measure nat") auto

definition to_double :: "int \<Rightarrow> number" where
  "to_double n =
     (if n < 2 ^ 53 then Num n
      else
        (let e = bit_length n - 53;
             q = n div 2 ^ e;
             r = n mod 2 ^ e;
             q' = (if 2 * r > 2 ^ e \<or> (2 * r = 2 ^ e \<and> odd q) then q + 1 else q);
             v = q' * 2 ^ e
         in if v \<ge> 2 ^ 1024 then Infinity else Num v))"

text \<open>
  \<^verbatim>\<open>parseInt\<close> on the texts the groups of \<^verbatim>\<open>WORDLE_REGEX\<close> can hold (digits, or one of the
  letters \<^verbatim>\<open>X\<close> and \<^verbatim>\<open>x\<close>): the double of the value of the leading decimal digits, \<^verbatim>\<open>NaN\<close>
  (\<open>None\<close>) when there is none. White space, signs and the prefix \<^verbatim>\<open>0x\<close> do not occur in
  these texts.
\<close>

definition parseInt :: "jsstring \<Rightarrow> number option" where
  "parseInt s =
     (let ds = takeWhile is_digit s
      in if ds = [] then None
         else Some (to_double (foldl (\<lambda>n d. 10 * n + (int d - 48)) 0 ds)))"

text \<open>The integer a number holds, when it is finite.\<close>

fun integer_of :: "number option \<Rightarrow> int option" where
  "integer_of (Some (Num v)) = Some v"
| "integer_of (Some Infinity) = None"
| "integer_of None = None"

text \<open>\<^verbatim>\<open>toUpperCase\<close>, on ASCII (it is applied to the second group only).\<close>

definition toUpperCase :: "jsstring \<Rightarrow> jsstring" where
  "toUpperCase s = map (\<lambda>ch. if 97 \<le> ch \<and> ch \<le> 122 then ch - 32 else ch) s"

text \<open>A time (\<^verbatim>\<open>Date\<close>) is its number of milliseconds since the epoch.\<close>

type_synonym date = int

record score_record =
  wordleNumber :: number
  score :: int
  maxAttempts :: number
  hardMode :: bool
  timestamp :: date

text \<open>
  \<^verbatim>\<open>function parseWordleScore(content)\<close>. The function reads the clock
  (\<^verbatim>\<open>timestamp: new Date()\<close>): the value the clock returns is the argument \<open>now\<close>.
  The fields \<open>wordleNumber\<close> and \<open>maxAttempts\<close> are numbers as \<^verbatim>\<open>parseInt\<close> returns them. The
  field \<open>score\<close>, which \<^verbatim>\<open>calculateStats\<close> adds up and compares, is an integer: it is 7 or
  \<^verbatim>\<open>parseInt\<close> of the one character of the second group. Where a field would be \<^verbatim>\<open>NaN\<close>,
  or \<open>score\<close> would not be finite, the model returns no record, and
  \<open>parseWordleScore_match\<close> below shows that this never happens after a match.
\<close>

definition parseWordleScore :: "date \<Rightarrow> jsstring \<Rightarrow> score_record option" where
  "parseWordleScore now content =
     (case regexp_match WORDLE_REGEX content of
        None \<Rightarrow> None
      | Some match \<Rightarrow>
          (let wordleNumberStr = filter (\<lambda>ch. ch \<noteq> of_char CHR '','') (match ! 1);
               hardMode' = (match ! 4 = js ''*'')
           in case parseInt wordleNumberStr of
                None \<Rightarrow> None
              | Some wordleNumber' \<Rightarrow>
                  (case parseInt (match ! 3) of
                     None \<Rightarrow> None
                   | Some maxAttempts' \<Rightarrow>
                       (case (if toUpperCase (match ! 2) = js ''X'' then Some 7
                              else integer_of (parseInt (match ! 2))) of
                          None \<Rightarrow> None
                        | Some scoreValue \<Rightarrow>
                            Some \<lparr> wordleNumber = wordleNumber', score = scoreValue,
                                   maxAttempts = maxAttempts', hardMode = hardMode',
                                   timestamp = now \<rparr>))))"

section \<open>The score store \<^verbatim>\<open>userScores\<close>\<close>

text \<open>
  \<^verbatim>\<open>const userScores = new Map();\<close> from user ids to arrays of records. A \<^verbatim>\<open>Map\<close> iterates
  in the order its keys were first set, and \<^verbatim>\<open>calculateStats\<close> iterates it, so the store
  is an association list in that order: \<open>set_entry\<close> replaces the value of a key that is
  present and appends a key that is not.
\<close>

type_synonym store = "(jsstring \<times> score_record list) list"

definition has :: "store \<Rightarrow> jsstring \<Rightarrow> bool" where
  "has m k = list_ex (\<lambda>(k', v). k' = k) m"

definition get :: "store \<Rightarrow> jsstring \<Rightarrow> score_record list option" where
  "get m k = map_of m k"

fun set_entry :: "jsstring \<Rightarrow> score_record list \<Rightarrow> store \<Rightarrow> store" where
  "set_entry k v [] = [(k, v)]"
| "set_entry k v ((k', v') # m) = (if k' = k then (k, v) # m else (k', v') # set_entry k v m)"

record message =
  message_id :: jsstring      \<comment> \<open>\<^verbatim>\<open>message.id\<close>\<close>
  content :: jsstring         \<comment> \<open>\<^verbatim>\<open>message.content\<close>\<close>
  author_id :: jsstring       \<comment> \<open>\<^verbatim>\<open>message.author.id\<close>\<close>
  createdAt :: date           \<comment> \<open>\<^verbatim>\<open>message.createdAt\<close>\<close>
  channel_name :: jsstring    \<comment> \<open>\<^verbatim>\<open>message.channel.name\<close>\<close>

text \<open>
  The lines both producers share (169 to 176 in the backfill, 205 to 212 in the live
  handler):
  \<^verbatim>\<open>
  if (!userScores.has(message.author.id)) { userScores.set(message.author.id, []); }
  userScores.get(message.author.id).push({ ...score, timestamp: message.createdAt });
  \<close>
  The array is pushed to in place; in the model the entry is set to the longer array.
  \<^verbatim>\<open>get\<close> cannot miss the key here, since it has just been set.
\<close>

definition push_score :: "message \<Rightarrow> score_record \<Rightarrow> store \<Rightarrow> store" where
  "push_score message score' userScores =
     (let userScores1 =
            (if \<not> has userScores (author_id message)
             then set_entry (author_id message) [] userScores else userScores)
      in case get userScores1 (author_id message) of
           None \<Rightarrow> userScores1
         | Some scores \<Rightarrow>
             set_entry (author_id message)
               (scores @ [score'\<lparr> timestamp := createdAt message \<rparr>]) userScores1)"

section \<open>Live ingest: the \<^verbatim>\<open>messageCreate\<close> handler\<close>

definition WORDLE_CHANNEL_NAME :: jsstring where
  "WORDLE_CHANNEL_NAME = js ''gamers-rise-up''"

text \<open>\<open>now\<close> is what the clock shows when \<^verbatim>\<open>parseWordleScore\<close> reads it.\<close>

definition messageCreate :: "date \<Rightarrow> message \<Rightarrow> store \<Rightarrow> store" where
  "messageCreate now message userScores =
     (if channel_name message \<noteq> WORDLE_CHANNEL_NAME then userScores
      else case parseWordleScore now (content message) of
             None \<Rightarrow> userScores
           | Some score' \<Rightarrow> push_score message score' userScores)"

section \<open>Backfill: \<^verbatim>\<open>fetchHistoricalMessages\<close>\<close>

text \<open>
  \<^verbatim>\<open>channel.messages.fetch(options)\<close> belongs to the chat platform. It is a parameter of
  the model: a function from the options to the page it returns, or to the error it
  throws. \<^verbatim>\<open>options.before\<close> is set only when \<^verbatim>\<open>lastId\<close> is truthy.
\<close>

record fetch_options =
  limit :: nat
  before :: "jsstring option"

datatype error = FetchError jsstring

type_synonym fetch = "fetch_options \<Rightarrow> error + message list"

text \<open>
  The state the loop over a page changes: the counter \<^verbatim>\<open>scoresFound\<close>, the store, and how
  often the clock has been read. The clock is the function \<open>clock\<close> from the number of
  earlier reads to the time shown; \<^verbatim>\<open>parseWordleScore\<close> reads it once, when the text
  matches.
\<close>

record progress =
  scoresFound :: nat
  userScores :: store
  ticks :: nat

text \<open>The body of \<^verbatim>\<open>for (const [_, message] of messages)\<close> after its test of the age.\<close>

definition process_message :: "(nat \<Rightarrow> date) \<Rightarrow> progress \<Rightarrow> message \<Rightarrow> progress" where
  "process_message clock st message =
     (case parseWordleScore (clock (ticks st)) (content message) of
        None \<Rightarrow> st
      | Some score' \<Rightarrow>
          st\<lparr> userScores := push_score message score' (userScores st),
              scoresFound := scoresFound st + 1,
              ticks := Suc (ticks st) \<rparr>)"

text \<open>
  The loop over a page. The first component of the result tells whether the function
  returned from inside the loop (\<^verbatim>\<open>if (message.createdAt < oneYearAgo) { ...; return; }\<close>).
\<close>

fun process_page :: "(nat \<Rightarrow> date) \<Rightarrow> date \<Rightarrow> message list \<Rightarrow> progress \<Rightarrow> bool \<times> progress" where
  "process_page clock oneYearAgo [] st = (False, st)"
| "process_page clock oneYearAgo (message # messages) st =
     (if createdAt message < oneYearAgo then (True, st)
      else process_page clock oneYearAgo messages (process_message clock st message))"

definition batchSize :: nat where
  "batchSize = 100"

text \<open>
  How a run of the \<^verbatim>\<open>while (true)\<close> loop ends: both \<^verbatim>\<open>break\<close>s lead to the message
  "Finished processing historical messages", the \<^verbatim>\<open>return\<close> in the page loop to "Reached
  messages older than 1 year", an error of \<^verbatim>\<open>fetch\<close> to the \<^verbatim>\<open>catch\<close> block. The loop has
  no bound of its own, so the model counts the pages it may still fetch (\<open>fuel\<close>), and
  \<open>StillFetching\<close> is the state reached when that many pages were all full.
\<close>

datatype outcome = Finished | ReachedOldMessages | Failed error | StillFetching

text \<open>
  The loop (lines 148 to 189), from the values of \<^verbatim>\<open>lastId\<close>, \<^verbatim>\<open>messagesProcessed\<close> and the
  state above. The result holds \<^verbatim>\<open>messagesProcessed\<close> and that state at the end. Log lines
  and the delay of one second between two pages are left out.
\<close>

fun fetch_loop ::
  "nat \<Rightarrow> fetch \<Rightarrow> (nat \<Rightarrow> date) \<Rightarrow> date \<Rightarrow> jsstring option \<Rightarrow> nat \<Rightarrow> progress
     \<Rightarrow> outcome \<times> nat \<times> progress" where
  "fetch_loop 0 fetch clock oneYearAgo lastId messagesProcessed st =
     (StillFetching, messagesProcessed, st)"
| "fetch_loop (Suc fuel) fetch clock oneYearAgo lastId messagesProcessed st =
     (let options = \<lparr> limit = batchSize,
                      before = (case lastId of
                                  None \<Rightarrow> None
                                | Some i \<Rightarrow> if i = [] then None else Some i) \<rparr>
      in case fetch options of
           Inl e \<Rightarrow> (Failed e, messagesProcessed, st)
         | Inr messages \<Rightarrow>
             if length messages = 0 then (Finished, messagesProcessed, st)
             else
               (let messagesProcessed1 = messagesProcessed + length messages;
                    lastId1 = Some (message_id (last messages))
                in case process_page clock oneYearAgo messages st of
                     (True, st1) \<Rightarrow> (ReachedOldMessages, messagesProcessed1, st1)
                   | (False, st1) \<Rightarrow>
                       if length messages < batchSize then (Finished, messagesProcessed1, st1)
                       else fetch_loop fuel fetch clock oneYearAgo lastId1 messagesProcessed1 st1))"

text \<open>
  \<^verbatim>\<open>fetchHistoricalMessages\<close>: without a guild, or without a channel of the configured name,
  it returns at once (\<open>channel = None\<close>); otherwise it runs the loop from \<^verbatim>\<open>lastId = null\<close>
  and both counters at 0. \<^verbatim>\<open>oneYearAgo\<close> is the clock's time with the year lowered by one,
  computed by the runtime's calendar.
\<close>

datatype crawl = NoChannel | Crawled outcome nat progress

definition fetchHistoricalMessages ::
  "nat \<Rightarrow> fetch option \<Rightarrow> (nat \<Rightarrow> date) \<Rightarrow> date \<Rightarrow> store \<Rightarrow> crawl" where
  "fetchHistoricalMessages fuel channel clock oneYearAgo store0 =
     (case channel of
        None \<Rightarrow> NoChannel
      | Some fetch \<Rightarrow>
          (case fetch_loop fuel fetch clock oneYearAgo None 0
                  \<lparr> scoresFound = 0, userScores = store0, ticks = 0 \<rparr> of
             (out, messagesProcessed, st) \<Rightarrow> Crawled out messagesProcessed st))"

section \<open>\<^verbatim>\<open>calculateStats\<close>\<close>

text \<open>
  \<^verbatim>\<open>const distribution = { 1: 0, 2: 0, 3: 0, 4: 0, 5: 0, 6: 0, X: 0 };\<close>
\<close>

record distribution =
  bucket1 :: nat
  bucket2 :: nat
  bucket3 :: nat
  bucket4 :: nat
  bucket5 :: nat
  bucket6 :: nat
  bucketX :: nat

record user_stat =
  userId :: jsstring
  totalGames :: nat
  averageScore :: rat
  distribution :: distribution

text \<open>The body of \<^verbatim>\<open>filteredScores.forEach\<close>: \<^verbatim>\<open>distribution[score.score]++\<close> or \<^verbatim>\<open>distribution.X++\<close>.\<close>

definition tally :: "distribution \<Rightarrow> score_record \<Rightarrow> distribution" where
  "tally d s =
     (if score s \<ge> 1 \<and> score s \<le> 6 then
        (if score s = 1 then d\<lparr> bucket1 := bucket1 d + 1 \<rparr>
         else if score s = 2 then d\<lparr> bucket2 := bucket2 d + 1 \<rparr>
         else if score s = 3 then d\<lparr> bucket3 := bucket3 d + 1 \<rparr>
         else if score s = 4 then d\<lparr> bucket4 := bucket4 d + 1 \<rparr>
         else if score s = 5 then d\<lparr> bucket5 := bucket5 d + 1 \<rparr>
         else d\<lparr> bucket6 := bucket6 d + 1 \<rparr>)
      else d\<lparr> bucketX := bucketX d + 1 \<rparr>)"

text \<open>
  The loop over \<^verbatim>\<open>userScores.entries()\<close>. The average is a double,
  \<^verbatim>\<open>parseFloat((totalScore / filteredScores.length).toFixed(2))\<close>: the division and the
  rounding to two decimals are the runtime's floating-point operations, taken here as the
  parameter \<open>average\<close>, a function from the total and the count to the value of the double
  (a rational number).
\<close>

fun stats_loop ::
  "(int \<Rightarrow> nat \<Rightarrow> rat) \<Rightarrow> date \<Rightarrow> date \<Rightarrow> store \<Rightarrow> user_stat list \<Rightarrow> user_stat list" where
  "stats_loop average startDate endDate [] stats = stats"
| "stats_loop average startDate endDate ((userId', scores) # entries) stats =
     (let filteredScores =
            filter (\<lambda>s. timestamp s \<ge> startDate \<and> timestamp s \<le> endDate) scores
      in if length filteredScores > 0 then
           (let totalScore = foldl (\<lambda>sum s. sum + score s) 0 filteredScores;
                averageScore' = average totalScore (length filteredScores);
                distribution' =
                  foldl tally
                    \<lparr> bucket1 = 0, bucket2 = 0, bucket3 = 0, bucket4 = 0, bucket5 = 0,
                      bucket6 = 0, bucketX = 0 \<rparr>
                    filteredScores
            in stats_loop average startDate endDate entries
                 (stats @ [\<lparr> userId = userId', totalGames = length filteredScores,
                             averageScore = averageScore', distribution = distribution' \<rparr>]))
         else stats_loop average startDate endDate entries stats)"

text \<open>
  \<^verbatim>\<open>stats.sort((a, b) => a.averageScore - b.averageScore)\<close>. \<^verbatim>\<open>Array.prototype.sort\<close> is
  stable and, for a consistent comparator, returns the one stable arrangement in the
  comparator's order; insertion from the right computes it. The difference of two doubles
  has the sign of the difference of their values.
\<close>

fun insert_by :: "('a \<Rightarrow> 'a \<Rightarrow> rat) \<Rightarrow> 'a \<Rightarrow> 'a list \<Rightarrow> 'a list" where
  "insert_by cmp x [] = [x]"
| "insert_by cmp x (y # ys) = (if cmp x y \<le> 0 then x # y # ys else y # insert_by cmp x ys)"

definition sort_by :: "('a \<Rightarrow> 'a \<Rightarrow> rat) \<Rightarrow> 'a list \<Rightarrow> 'a list" where
  "sort_by cmp xs = foldr (insert_by cmp) xs []"

definition calculateStats ::
  "(int \<Rightarrow> nat \<Rightarrow> rat) \<Rightarrow> date \<Rightarrow> date \<Rightarrow> store \<Rightarrow> user_stat list" where
  "calculateStats average startDate endDate store0 =
     sort_by (\<lambda>a b. averageScore a - averageScore b)
       (stats_loop average startDate endDate store0 [])"

section \<open>The window of a \<^verbatim>\<open>wordlestats\<close> command\<close>

text \<open>
  The methods of \<^verbatim>\<open>Date\<close> that the handler calls work on the local calendar; they are
  parameters: \<open>setHours0 d\<close> is \<open>d\<close> after \<^verbatim>\<open>setHours(0, 0, 0, 0)\<close>, \<open>monthsBack n d\<close> is \<open>d\<close>
  after \<^verbatim>\<open>setMonth(getMonth() - n)\<close>, \<open>yearsBack n d\<close> is \<open>d\<close> after
  \<^verbatim>\<open>setFullYear(getFullYear() - n)\<close>.
\<close>

record calendar =
  setHours0 :: "date \<Rightarrow> date"
  monthsBack :: "nat \<Rightarrow> date \<Rightarrow> date"
  yearsBack :: "nat \<Rightarrow> date \<Rightarrow> date"

text \<open>
  Lines 223 to 248: \<^verbatim>\<open>startDate\<close> and \<^verbatim>\<open>endDate\<close> are two readings of the clock, \<open>now1\<close> and
  \<open>now2\<close>; the \<^verbatim>\<open>switch\<close> has five cases and no default. The result is the pair that is
  passed to \<^verbatim>\<open>calculateStats\<close>.
\<close>

definition period_window :: "calendar \<Rightarrow> jsstring \<Rightarrow> date \<Rightarrow> date \<Rightarrow> date \<times> date" where
  "period_window cal periodChoice now1 now2 =
     (let startDate = now1; endDate = now2;
          startDate1 =
            (if periodChoice = js ''today'' then setHours0 cal startDate
             else if periodChoice = js ''month'' then setHours0 cal (monthsBack cal 1 startDate)
             else if periodChoice = js ''three_months'' then setHours0 cal (monthsBack cal 3 startDate)
             else if periodChoice = js ''six_months'' then setHours0 cal (monthsBack cal 6 startDate)
             else if periodChoice = js ''year'' then setHours0 cal (yearsBack cal 1 startDate)
             else startDate)
      in (startDate1, endDate))"

section \<open>Notions the properties are stated with\<close>

text \<open>The records stored for a user: none when the store has no entry for it.\<close>

definition scores_of :: "store \<Rightarrow> jsstring \<Rightarrow> score_record list" where
  "scores_of m u = (case get m u of None \<Rightarrow> [] | Some scores \<Rightarrow> scores)"

text \<open>
  The texts a list of atoms describes, with no reference to the order of backtracking:
  \<open>accepts as w\<close> holds when \<open>w\<close> splits into one piece per atom, each piece made of code
  units of the atom's class and of a length its quantifier allows.
\<close>

fun quant_ok :: "quant \<Rightarrow> nat \<Rightarrow> bool" where
  "quant_ok Once k = (k = 1)"
| "quant_ok Optional k = (k \<le> 1)"
| "quant_ok Star k = True"
| "quant_ok Plus k = (1 \<le> k)"

fun accepts :: "atom list \<Rightarrow> jsstring \<Rightarrow> bool" where
  "accepts [] w = (w = [])"
| "accepts ((c, q) # as) w =
     list_ex (\<lambda>k. quant_ok q k \<and> list_all (class_matches c) (take k w) \<and> accepts as (drop k w))
       [0 ..< Suc (length w)]"

fun atoms_of :: "part list \<Rightarrow> atom list" where
  "atoms_of [] = []"
| "atoms_of (A c q # ps) = (c, q) # atoms_of ps"
| "atoms_of (G as # ps) = as @ atoms_of ps"

fun groups_of :: "part list \<Rightarrow> atom list list" where
  "groups_of [] = []"
| "groups_of (A c q # ps) = groups_of ps"
| "groups_of (G as # ps) = as # groups_of ps"

text \<open>
  A message source for the backfill with a fixed history \<open>hist\<close>, newest message first:
  a page is the first \<open>limit\<close> messages, or the first \<open>limit\<close> messages after the one whose
  id is the cursor. It never fails.
\<close>

fun older_than :: "jsstring \<Rightarrow> message list \<Rightarrow> message list" where
  "older_than i [] = []"
| "older_than i (m # ms) = (if message_id m = i then ms else older_than i ms)"

definition history_fetch :: "message list \<Rightarrow> fetch" where
  "history_fetch hist options =
     Inr (take (limit options)
            (case before options of None \<Rightarrow> hist | Some i \<Rightarrow> older_than i hist))"

text \<open>
  What a message adds to the store, stated without the clock: the record parsed from its
  text at a clock that shows the message's own creation time.
\<close>

definition stored_record :: "message \<Rightarrow> score_record option" where
  "stored_record m = parseWordleScore (createdAt m) (content m)"

text \<open>
  The records that a list of messages adds for the user \<open>u\<close>, in the order of the list: one
  for each message of \<open>u\<close> whose text parses.
\<close>

definition records_for :: "jsstring \<Rightarrow> message list \<Rightarrow> score_record list" where
  "records_for u ms =
     concat (map (\<lambda>m. if author_id m = u
                          then (case stored_record m of None \<Rightarrow> [] | Some r \<Rightarrow> [r])
                          else []) ms)"

text \<open>The sum of the seven buckets of a distribution.\<close>

definition buckets_sum :: "distribution \<Rightarrow> nat" where
  "buckets_sum d =
     bucket1 d + bucket2 d + bucket3 d + bucket4 d + bucket5 d + bucket6 d + bucketX d"

section \<open>Evaluation\<close>

lemmas parse_eval =
  parseWordleScore_def WORDLE_REGEX_def js_def chr_def atom_opts_def canonicalize_def
  is_digit_def is_white_space_def parseInt_def to_double_def toUpperCase_def

section \<open>Numbers\<close>

text \<open>
  \<open>to_double\<close> is exact below \<open>2^53\<close>, rounds to the nearest double from there on, and is
  \<^verbatim>\<open>Infinity\<close> from \<open>2^1024\<close> on (so for every text of 310 digits or more without leading
  zeros).
\<close>

lemma to_double_exact: "n < 2 ^ 53 \<Longrightarrow> to_double n = Num n"
  by (simp add: to_double_def)

declare bit_length.simps [simp del]

lemma bit_length_bounds:
  "0 < n \<Longrightarrow> 2 ^ (bit_length n - 1) \<le> n \<and> n < 2 ^ bit_length n"
proof (induction n rule: bit_length.induct)
  case (1 n)
  show ?case
  proof (cases "n = 1")
    case True
    have "bit_length 1 = 1"
      by (simp add: bit_length.simps [of 1] bit_length.simps [of 0])
    with True show ?thesis by simp
  next
    case False
    with "1.prems" have pos: "0 < n div 2" by simp
    from "1.prems" have bl: "bit_length n = Suc (bit_length (n div 2))"
      by (simp add: bit_length.simps [of n])
    from pos have "bit_length (n div 2) \<noteq> 0"
      by (simp add: bit_length.simps [of "n div 2"])
    then obtain k where k: "bit_length (n div 2) = Suc k" by (cases "bit_length (n div 2)") auto
    from "1.IH" pos "1.prems" have ih: "2 ^ k \<le> n div 2" "n div 2 < 2 ^ Suc k"
      by (simp_all add: k)
    from ih(1) have "2 * 2 ^ k \<le> n" by linarith
    moreover from ih(2) have "n < 2 * 2 ^ Suc k" by linarith
    ultimately show ?thesis by (simp add: bl k)
  qed
qed

lemma to_double_Infinity:
  assumes "2 ^ 1024 \<le> n"
  shows "to_double n = Infinity"
proof -
  have "(0::int) < 2 ^ 1024" by simp
  with assms have pos: "0 < n" by linarith
  from bit_length_bounds [OF pos] have lo: "2 ^ (bit_length n - 1) \<le> n"
    and hi: "n < 2 ^ bit_length n" by simp_all
  from hi assms have "(2::int) ^ 1024 < 2 ^ bit_length n" by linarith
  then have "1024 < bit_length n"
    by (rule power_less_imp_less_exp [of "2::int", rotated]) simp
  then have big: "1025 \<le> bit_length n" by simp
  define e where "e = bit_length n - 53"
  define q where "q = n div 2 ^ e"
  have be: "bit_length n - 1 = 52 + e" using big by (simp add: e_def)
  from lo have "(2::int) ^ (52 + e) \<le> n" unfolding be .
  then have le: "(2::int) ^ 52 * 2 ^ e \<le> n" by (simp only: power_add)
  have "((2::int) ^ 52 * 2 ^ e) div 2 ^ e \<le> n div 2 ^ e"
    by (rule zdiv_mono1 [OF le]) simp
  then have q52: "2 ^ 52 \<le> q" unfolding q_def by simp
  have e972: "972 \<le> e" using big by (simp add: e_def)
  have "(2::int) ^ 1024 = 2 ^ 52 * 2 ^ 972" by (simp flip: power_add)
  also have "\<dots> \<le> q * 2 ^ e"
  proof (rule mult_mono [OF q52])
    show "(2::int) ^ 972 \<le> 2 ^ e" by (rule power_increasing [OF e972]) simp
    show "0 \<le> q" using q52 by simp
    show "(0::int) \<le> 2 ^ 972" by simp
  qed
  finally have v: "2 ^ 1024 \<le> q * 2 ^ e" .
  have "q * 2 ^ e \<le> (q + 1) * 2 ^ e" by (simp add: distrib_right)
  with v have v1: "2 ^ 1024 \<le> (q + 1) * 2 ^ e" by linarith
  have "(2::int) ^ 53 \<le> 2 ^ 1024" by (rule power_increasing) simp_all
  with assms have "\<not> n < 2 ^ 53" by linarith
  with v v1 show ?thesis
    by (simp add: to_double_def Let_def e_def [symmetric] q_def [symmetric])
qed

lemma parseInt_rounding:
  "parseInt (js ''9007199254740993'') = Some (Num 9007199254740992) \<and>
   parseInt (js ''99999999999999999999'') = Some (Num 100000000000000000000)"
  by (simp add: parseInt_def js_def is_digit_def to_double_def bit_length.simps)

section \<open>The matcher and the texts of the pattern\<close>

text \<open>
  The matcher is sound and complete for \<open>accepts\<close>: what a group captures is a text of the
  group's atoms, and a text of the pattern's atoms is matched wherever it stands.
\<close>

lemma quant_counts_iff: "k \<in> set (quant_counts q n) \<longleftrightarrow> quant_ok q k \<and> k \<le> n"
  by (cases q) auto

lemma atom_opts_iff:
  "r \<in> set (atom_opts c q s) \<longleftrightarrow>
     (\<exists>k. r = drop k s \<and> quant_ok q k \<and> k \<le> length (takeWhile (class_matches c) s))"
  by (auto simp: atom_opts_def quant_counts_iff)

lemma accepts_Cons_iff:
  "accepts ((c, q) # as) w \<longleftrightarrow>
     (\<exists>k. k \<le> length w \<and> quant_ok q k \<and> list_all (class_matches c) (take k w) \<and>
          accepts as (drop k w))"
proof -
  have "(\<exists>k\<in>set [0 ..< Suc (length w)]. P k) \<longleftrightarrow> (\<exists>k. k \<le> length w \<and> P k)" for P
    by (auto simp: less_Suc_eq_le simp del: upt_Suc)
  then show ?thesis
    by (simp only: accepts.simps list_ex_iff)
qed

lemma accepts_lazy:
  "accepts ((c, q) # as) w =
     list_ex (\<lambda>k. if quant_ok q k then
                       if list_all (class_matches c) (take k w) then accepts as (drop k w)
                       else False
                     else False)
       [0 ..< Suc (length w)]"
  by (simp only: accepts.simps list_ex_iff) meson

declare accepts.simps(2) [simp del]

lemma take_run_matches:
  "k \<le> length (takeWhile P s) \<Longrightarrow> list_all P (take k s)"
proof -
  assume k: "k \<le> length (takeWhile P s)"
  have "take k (takeWhile P s @ dropWhile P s) = take k (takeWhile P s)"
    using k by (simp del: takeWhile_dropWhile_id)
  then have "take k s = take k (takeWhile P s)" by simp
  then have "set (take k s) \<subseteq> set (takeWhile P s)" by (simp add: set_take_subset)
  then show ?thesis by (auto simp: list_all_iff dest: set_takeWhileD)
qed

lemma run_covers_prefix:
  "list_all P u \<Longrightarrow> length u \<le> length (takeWhile P (u @ r))"
  by (induction u) auto

lemma match_atoms_sound:
  "r \<in> set (match_atoms as s) \<Longrightarrow> \<exists>u. s = u @ r \<and> accepts as u"
proof (induction as arbitrary: s)
  case Nil
  then show ?case by simp
next
  case (Cons a as)
  obtain c q where a: "a = (c, q)" by (cases a)
  from Cons.prems a obtain k where
    k: "quant_ok q k" "k \<le> length (takeWhile (class_matches c) s)"
    and r: "r \<in> set (match_atoms as (drop k s))"
    by (auto simp: atom_opts_iff)
  from Cons.IH [OF r] obtain u where u: "drop k s = u @ r" "accepts as u" by blast
  have kl: "k \<le> length s"
    using k(2) length_takeWhile_le [of "class_matches c" s] by linarith
  have s: "s = (take k s @ u) @ r"
    using u(1) append_take_drop_id [of k s] by simp
  have "accepts ((c, q) # as) (take k s @ u)"
    unfolding accepts_Cons_iff
    using k kl u(2) take_run_matches [OF k(2)]
    by (intro exI [of _ k]) (simp add: min_def)
  with s a show ?case by blast
qed

lemma match_atoms_complete:
  "accepts as u \<Longrightarrow> r \<in> set (match_atoms as (u @ r))"
proof (induction as arbitrary: u)
  case Nil
  then show ?case by simp
next
  case (Cons a as)
  obtain c q where a: "a = (c, q)" by (cases a)
  from Cons.prems a have "accepts ((c, q) # as) u" by simp
  then obtain k where
    k: "k \<le> length u" "quant_ok q k" "list_all (class_matches c) (take k u)"
    and rest: "accepts as (drop k u)"
    by (auto simp: accepts_Cons_iff)
  have "length (take k u) \<le> length (takeWhile (class_matches c) (take k u @ (drop k u @ r)))"
    by (rule run_covers_prefix [OF k(3)])
  moreover have "take k u @ (drop k u @ r) = u @ r" by simp
  ultimately have run: "k \<le> length (takeWhile (class_matches c) (u @ r))"
    using k(1) by (auto simp: min_def split: if_splits)
  have "drop k (u @ r) = drop k u @ r" using k(1) by simp
  then have "drop k u @ r \<in> set (atom_opts c q (u @ r))"
    using k(2) run unfolding atom_opts_iff by metis
  moreover have "r \<in> set (match_atoms as (drop k u @ r))"
    by (rule Cons.IH [OF rest])
  ultimately show ?case using a by auto
qed

lemma accepts_append:
  "accepts as u \<Longrightarrow> accepts bs v \<Longrightarrow> accepts (as @ bs) (u @ v)"
proof (induction as arbitrary: u)
  case Nil
  then show ?case by simp
next
  case (Cons a as)
  obtain c q where a: "a = (c, q)" by (cases a)
  from Cons.prems(1) a have "accepts ((c, q) # as) u" by simp
  then obtain k where
    k: "k \<le> length u" "quant_ok q k" "list_all (class_matches c) (take k u)"
    and rest: "accepts as (drop k u)"
    by (auto simp: accepts_Cons_iff)
  have "accepts (as @ bs) (drop k u @ v)"
    by (rule Cons.IH [OF rest Cons.prems(2)])
  then have "accepts ((c, q) # as @ bs) (u @ v)"
    unfolding accepts_Cons_iff using k by (intro exI [of _ k]) simp
  with a show ?case by simp
qed

lemma accepts_split:
  "accepts (as @ bs) w \<Longrightarrow> \<exists>u v. w = u @ v \<and> accepts as u \<and> accepts bs v"
proof (induction as arbitrary: w)
  case Nil
  then show ?case by simp
next
  case (Cons a as)
  obtain c q where a: "a = (c, q)" by (cases a)
  from Cons.prems a have "accepts ((c, q) # as @ bs) w" by simp
  then obtain k where
    k: "k \<le> length w" "quant_ok q k" "list_all (class_matches c) (take k w)"
    and rest: "accepts (as @ bs) (drop k w)"
    by (auto simp: accepts_Cons_iff)
  from Cons.IH [OF rest] obtain u v where
    uv: "drop k w = u @ v" "accepts as u" "accepts bs v" by blast
  have w: "w = (take k w @ u) @ v"
    using uv(1) append_take_drop_id [of k w] by simp
  have "accepts ((c, q) # as) (take k w @ u)"
    unfolding accepts_Cons_iff using k uv(2) by (intro exI [of _ k]) (simp add: min_def)
  with w uv(3) a show ?case by blast
qed

lemma match_parts_sound:
  "(caps, rest) \<in> set (match_parts ps s) \<Longrightarrow> list_all2 accepts (groups_of ps) caps"
proof (induction ps s arbitrary: caps rule: match_parts.induct)
  case (1 s)
  then show ?case by simp
next
  case (2 c q ps s)
  then show ?case by auto
next
  case (3 as ps s)
  from "3.prems" obtain r caps' where
    r: "r \<in> set (match_atoms as s)" and c: "(caps', rest) \<in> set (match_parts ps r)"
    and caps: "caps = take (length s - length r) s # caps'"
    by auto
  from match_atoms_sound [OF r] obtain u where u: "s = u @ r" "accepts as u" by blast
  have "take (length s - length r) s = u" using u(1) by simp
  with "3.IH" [OF r c] caps u(2) show ?case by simp
qed

lemma match_parts_complete:
  "accepts (atoms_of ps) u \<Longrightarrow> \<exists>caps. (caps, r) \<in> set (match_parts ps (u @ r))"
proof (induction ps arbitrary: u)
  case Nil
  then show ?case by simp
next
  case (Cons p ps)
  show ?case
  proof (cases p)
    case (A c q)
    with Cons.prems have "accepts ([(c, q)] @ atoms_of ps) u" by simp
    from accepts_split [OF this] obtain v w where
      vw: "u = v @ w" "accepts [(c, q)] v" "accepts (atoms_of ps) w" by blast
    have "w @ r \<in> set (match_atoms [(c, q)] (v @ (w @ r)))"
      by (rule match_atoms_complete [OF vw(2)])
    then have 1: "w @ r \<in> set (atom_opts c q (u @ r))" using vw(1) by simp
    from Cons.IH [OF vw(3)] obtain caps where "(caps, r) \<in> set (match_parts ps (w @ r))" ..
    with 1 A show ?thesis by auto
  next
    case (G as)
    with Cons.prems have "accepts (as @ atoms_of ps) u" by simp
    from accepts_split [OF this] obtain v w where
      vw: "u = v @ w" "accepts as v" "accepts (atoms_of ps) w" by blast
    have "w @ r \<in> set (match_atoms as (v @ (w @ r)))"
      by (rule match_atoms_complete [OF vw(2)])
    then have 1: "w @ r \<in> set (match_atoms as (u @ r))" using vw(1) by simp
    from Cons.IH [OF vw(3)] obtain caps where "(caps, r) \<in> set (match_parts ps (w @ r))" ..
    with 1 G show ?thesis by force
  qed
qed

lemma regexp_match_sound:
  "regexp_match re s = Some m \<Longrightarrow>
     \<exists>whole caps. m = whole # caps \<and> list_all2 accepts (groups_of re) caps"
proof (induction s)
  case Nil
  then obtain caps rest where "match_parts re [] = (caps, rest) # tl (match_parts re [])" "m = [] # caps"
    by (auto split: list.splits)
  then have "(caps, rest) \<in> set (match_parts re [])" by (metis list.set_intros(1))
  from match_parts_sound [OF this] \<open>m = [] # caps\<close> show ?case by blast
next
  case (Cons c cs)
  show ?case
  proof (cases "match_parts re (c # cs)")
    case Nil
    with Cons show ?thesis by simp
  next
    case (Cons x xs)
    obtain caps rest where x: "x = (caps, rest)" by (cases x)
    with Cons have "(caps, rest) \<in> set (match_parts re (c # cs))" by simp
    from match_parts_sound [OF this] Cons x Cons.prems show ?thesis by auto
  qed
qed

lemma regexp_match_complete:
  "match_parts re (mid @ post) \<noteq> [] \<Longrightarrow> regexp_match re (pre @ mid @ post) \<noteq> None"
proof (induction pre)
  case Nil
  then show ?case by (cases "mid @ post") (auto split: list.splits)
next
  case (Cons c pre)
  then show ?case by (auto split: list.splits)
qed

lemma groups_of_WORDLE_REGEX:
  "groups_of WORDLE_REGEX =
     [[(ClassEscape_d, Plus), (chr CHR '','', Optional), (ClassEscape_d, Star)],
      [(Bracket [(of_char CHR ''1'', of_char CHR ''6''), (of_char CHR ''X'', of_char CHR ''X'')], Once)],
      [(ClassEscape_d, Plus)],
      [(chr CHR ''*'', Optional)]]"
  by (simp add: WORDLE_REGEX_def)

lemma wordle_match_groups:
  assumes "regexp_match WORDLE_REGEX s = Some m"
  shows "\<exists>whole g1 g2 g3 g4. m = [whole, g1, g2, g3, g4] \<and>
           accepts [(ClassEscape_d, Plus), (chr CHR '','', Optional), (ClassEscape_d, Star)] g1 \<and>
           accepts [(Bracket [(of_char CHR ''1'', of_char CHR ''6''),
                              (of_char CHR ''X'', of_char CHR ''X'')], Once)] g2 \<and>
           accepts [(ClassEscape_d, Plus)] g3 \<and>
           accepts [(chr CHR ''*'', Optional)] g4"
proof -
  from regexp_match_sound [OF assms] obtain whole caps where
    m: "m = whole # caps" and caps: "list_all2 accepts (groups_of WORDLE_REGEX) caps" by blast
  from caps show ?thesis
    unfolding groups_of_WORDLE_REGEX m by (auto simp: list_all2_Cons1)
qed

lemma is_digit_canonicalize: "is_digit (canonicalize ch) = is_digit ch"
  by (auto simp: is_digit_def canonicalize_def)

lemma accepts_digits_Plus:
  assumes "accepts ((ClassEscape_d, Plus) # as) g"
  shows "g \<noteq> [] \<and> is_digit (hd g)"
proof -
  from assms obtain k where
    k: "k \<le> length g" "1 \<le> k" "list_all (class_matches ClassEscape_d) (take k g)"
    by (auto simp: accepts_Cons_iff)
  then have ne: "g \<noteq> []" by auto
  then have "hd g \<in> set (take k g)" using k(2) by (cases g; cases k) auto
  with k(3) have "is_digit (hd g)" by (auto simp: list_all_iff is_digit_canonicalize)
  with ne show ?thesis by simp
qed

lemma parseInt_digit_first:
  assumes "g \<noteq> []" "is_digit (hd g)"
  shows "\<exists>n. parseInt g = Some n"
  using assms by (cases g) (auto simp: parseInt_def)

lemma parseInt_strip_commas:
  assumes "g \<noteq> []" "is_digit (hd g)"
  shows "\<exists>n. parseInt (filter (\<lambda>ch. ch \<noteq> of_char CHR '','') g) = Some n"
proof -
  from assms obtain d ds where g: "g = d # ds" "is_digit d" by (cases g) auto
  then have "d \<noteq> of_char CHR '',''" by (auto simp: is_digit_def)
  with g show ?thesis by (auto simp: parseInt_def)
qed

lemma bracket_matches:
  "class_matches (Bracket [(of_char CHR ''1'', of_char CHR ''6''),
                           (of_char CHR ''X'', of_char CHR ''X'')]) t \<longleftrightarrow>
     (49 \<le> t \<and> t \<le> 54) \<or> t = 88 \<or> t = 120"
proof -
  have "class_matches (Bracket [(of_char CHR ''1'', of_char CHR ''6''),
                                (of_char CHR ''X'', of_char CHR ''X'')]) t \<longleftrightarrow>
          (\<exists>a. 49 \<le> a \<and> a \<le> 54 \<and> canonicalize a = canonicalize t) \<or>
          (\<exists>a. 88 \<le> a \<and> a \<le> 88 \<and> canonicalize a = canonicalize t)"
    by (simp add: list_ex_iff Bex_def less_Suc_eq_le del: upt_Suc, blast)
  also have "(\<exists>a. 49 \<le> a \<and> a \<le> 54 \<and> canonicalize a = canonicalize t) \<longleftrightarrow> 49 \<le> t \<and> t \<le> 54"
    by (auto simp: canonicalize_def split: if_splits)
  also have "(\<exists>a. 88 \<le> a \<and> a \<le> 88 \<and> canonicalize a = canonicalize t) \<longleftrightarrow> t = 88 \<or> t = 120"
  proof -
    have "(\<exists>a. 88 \<le> a \<and> a \<le> 88 \<and> canonicalize a = canonicalize t) \<longleftrightarrow>
            canonicalize 88 = canonicalize t"
      by (metis le_antisym order_refl)
    also have "\<dots> \<longleftrightarrow> t = 88 \<or> t = 120"
      by (auto simp: canonicalize_def split: if_splits)
    finally show ?thesis .
  qed
  finally show ?thesis by simp
qed

lemma accepts_token:
  assumes "accepts [(Bracket [(of_char CHR ''1'', of_char CHR ''6''),
                              (of_char CHR ''X'', of_char CHR ''X'')], Once)] g"
  shows "\<exists>t. g = [t] \<and> ((49 \<le> t \<and> t \<le> 54) \<or> t = 88 \<or> t = 120)"
proof -
  from assms have len: "length g = 1"
    and all: "list_all (class_matches (Bracket [(of_char CHR ''1'', of_char CHR ''6''),
                              (of_char CHR ''X'', of_char CHR ''X'')])) (take 1 g)"
    by (auto simp: accepts_Cons_iff)
  from len obtain t where g: "g = [t]" by (cases g) auto
  with all show ?thesis unfolding bracket_matches g by simp
qed

lemma token_value:
  assumes "(49 \<le> t \<and> t \<le> 54) \<or> t = 88 \<or> t = 120"
  shows "(if toUpperCase [t] = js ''X'' then Some 7 else integer_of (parseInt [t])) =
           Some (if t = 88 \<or> t = 120 then 7 else int t - 48)"
  using assms by (auto simp: toUpperCase_def js_def parseInt_def is_digit_def to_double_def)

lemma parseWordleScore_of_match:
  assumes "regexp_match WORDLE_REGEX s = Some m"
    and "parseInt (filter (\<lambda>ch. ch \<noteq> of_char CHR '','') (m ! 1)) = Some n1"
    and "parseInt (m ! 3) = Some n3"
    and "(if toUpperCase (m ! 2) = js ''X'' then Some 7 else integer_of (parseInt (m ! 2))) = Some sv"
  shows "parseWordleScore now s =
           Some \<lparr> wordleNumber = n1, score = sv, maxAttempts = n3,
                  hardMode = (m ! 4 = js ''*''), timestamp = now \<rparr>"
  unfolding parseWordleScore_def Let_def by (simp only: assms option.case)

lemma parseWordleScore_match:
  assumes "regexp_match WORDLE_REGEX s = Some m"
  shows "\<exists>r t. parseWordleScore now s = Some r \<and> m ! 2 = [t] \<and>
           ((49 \<le> t \<and> t \<le> 54) \<or> t = 88 \<or> t = 120) \<and>
           score r = (if t = 88 \<or> t = 120 then 7 else int t - 48) \<and>
           parseInt (filter (\<lambda>ch. ch \<noteq> of_char CHR '','') (m ! 1)) = Some (wordleNumber r) \<and>
           parseInt (m ! 3) = Some (maxAttempts r) \<and>
           hardMode r = (m ! 4 = js ''*'') \<and> timestamp r = now"
proof -
  from wordle_match_groups [OF assms] obtain whole g1 g2 g3 g4 where
    m: "m = [whole, g1, g2, g3, g4]"
    and g1: "accepts [(ClassEscape_d, Plus), (chr CHR '','', Optional), (ClassEscape_d, Star)] g1"
    and g2: "accepts [(Bracket [(of_char CHR ''1'', of_char CHR ''6''),
                              (of_char CHR ''X'', of_char CHR ''X'')], Once)] g2"
    and g3: "accepts [(ClassEscape_d, Plus)] g3"
    by blast
  from accepts_digits_Plus [OF g1] parseInt_strip_commas obtain n1 where
    n1: "parseInt (filter (\<lambda>ch. ch \<noteq> of_char CHR '','') g1) = Some n1" by blast
  from accepts_digits_Plus [OF g3] parseInt_digit_first obtain n3 where
    n3: "parseInt g3 = Some n3" by blast
  from accepts_token [OF g2] obtain t where
    t: "g2 = [t]" "(49 \<le> t \<and> t \<le> 54) \<or> t = 88 \<or> t = 120" by blast
  note v = token_value [OF t(2)]
  have "parseWordleScore now s =
          Some \<lparr> wordleNumber = n1, score = (if t = 88 \<or> t = 120 then 7 else int t - 48),
                 maxAttempts = n3, hardMode = (m ! 4 = js ''*''), timestamp = now \<rparr>"
    by (rule parseWordleScore_of_match [OF assms]) (simp_all only: m t(1) n1 n3 v nth_Cons_Suc nth_Cons_0 numeral_2_eq_2 numeral_3_eq_3 One_nat_def)
  then show ?thesis
    using t n1 n3 by (simp add: m)
qed


section \<open>Properties of \<^verbatim>\<open>parseWordleScore\<close>\<close>

text \<open>
  C1. The spec: parsing is pure, reads no clock, and parsing the same text twice yields
  equal records. The code reads the clock in \<^verbatim>\<open>parseWordleScore\<close> (\<^verbatim>\<open>timestamp: new Date()\<close>):
  the same text parsed at two different times gives two different records.
\<close>

theorem parse_twice_counterexample:
  "map_option timestamp (parseWordleScore 0 (js ''Wordle 500 X/6'')) = Some 0 \<and>
   map_option timestamp (parseWordleScore 1 (js ''Wordle 500 X/6'')) = Some 1 \<and>
   parseWordleScore 0 (js ''Wordle 500 X/6'') \<noteq> parseWordleScore 1 (js ''Wordle 500 X/6'')"
  by (simp add: parse_eval)

text \<open>
  C1, as the code has it: the result is a function of the text and of the time the clock
  shows. Whether there is a record, and every field of it but \<open>timestamp\<close>, depends on the
  text alone; \<open>timestamp\<close> is the clock's time. Hence, once a caller has overwritten
  \<open>timestamp\<close> with a time \<open>t\<close> of its own (as both callers do), the record no longer
  depends on when the text was parsed.
\<close>

theorem parse_depends_on_text_and_clock:
  "parseWordleScore now body =
     map_option (\<lambda>r. r\<lparr> timestamp := now \<rparr>) (parseWordleScore now' body) \<and>
   map_option (\<lambda>r. r\<lparr> timestamp := t \<rparr>) (parseWordleScore now body) =
     map_option (\<lambda>r. r\<lparr> timestamp := t \<rparr>) (parseWordleScore now' body)"
  by (simp add: parseWordleScore_def Let_def split: option.splits)

text \<open>
  C5. \<^verbatim>\<open>parseWordleScore("Wordle 500 X/6")\<close> is the record with puzzle number 500, 7
  attempts, 6 attempts at most and no hard mode, and so is the record for the same text
  with a small \<^verbatim>\<open>x\<close>. In general, whenever the pattern matches in a text, a record is
  returned, the second group of the match is one code unit \<open>t\<close>, a digit from 1 to 6 or one
  of \<^verbatim>\<open>X\<close> and \<^verbatim>\<open>x\<close>, and the record's attempts are 7 for \<^verbatim>\<open>X\<close> and \<^verbatim>\<open>x\<close> and the digit's
  value otherwise. Conversely every record returned comes from such a match.
\<close>

theorem parse_failed_attempt:
  "parseWordleScore now (js ''Wordle 500 X/6'') =
     Some \<lparr> wordleNumber = Num 500, score = 7, maxAttempts = Num 6, hardMode = False,
            timestamp = now \<rparr> \<and>
   parseWordleScore now (js ''Wordle 500 x/6'') =
     Some \<lparr> wordleNumber = Num 500, score = 7, maxAttempts = Num 6, hardMode = False,
            timestamp = now \<rparr> \<and>
   (\<forall>body m. regexp_match WORDLE_REGEX body = Some m \<longrightarrow>
      (\<exists>r t. parseWordleScore now body = Some r \<and> m ! 2 = [t] \<and>
             ((of_char CHR ''1'' \<le> t \<and> t \<le> of_char CHR ''6'') \<or>
              t = of_char CHR ''X'' \<or> t = of_char CHR ''x'') \<and>
             score r = (if t = of_char CHR ''X'' \<or> t = of_char CHR ''x'' then 7
                        else int t - of_char CHR ''0''))) \<and>
   (\<forall>body r. parseWordleScore now body = Some r \<longrightarrow>
      (\<exists>m t. regexp_match WORDLE_REGEX body = Some m \<and> m ! 2 = [t] \<and>
             ((of_char CHR ''1'' \<le> t \<and> t \<le> of_char CHR ''6'') \<or>
              t = of_char CHR ''X'' \<or> t = of_char CHR ''x'') \<and>
             score r = (if t = of_char CHR ''X'' \<or> t = of_char CHR ''x'' then 7
                        else int t - of_char CHR ''0'')))"
proof (intro conjI allI impI)
  show "parseWordleScore now (js ''Wordle 500 X/6'') =
     Some \<lparr> wordleNumber = Num 500, score = 7, maxAttempts = Num 6, hardMode = False,
            timestamp = now \<rparr>"
    by (simp add: parse_eval)
next
  show "parseWordleScore now (js ''Wordle 500 x/6'') =
     Some \<lparr> wordleNumber = Num 500, score = 7, maxAttempts = Num 6, hardMode = False,
            timestamp = now \<rparr>"
    by (simp add: parse_eval)
next
  fix body m
  assume m: "regexp_match WORDLE_REGEX body = Some m"
  from parseWordleScore_match [OF m, of now] obtain r t where
    t: "parseWordleScore now body = Some r" "m ! 2 = [t]"
       "(49 \<le> t \<and> t \<le> 54) \<or> t = 88 \<or> t = 120"
       "score r = (if t = 88 \<or> t = 120 then 7 else int t - 48)"
    by blast
  then show "\<exists>r t. parseWordleScore now body = Some r \<and> m ! 2 = [t] \<and>
             ((of_char CHR ''1'' \<le> t \<and> t \<le> of_char CHR ''6'') \<or>
              t = of_char CHR ''X'' \<or> t = of_char CHR ''x'') \<and>
             score r = (if t = of_char CHR ''X'' \<or> t = of_char CHR ''x'' then 7
                        else int t - of_char CHR ''0'')"
    by (intro exI [of _ r] exI [of _ t]) simp
next
  fix body r
  assume r: "parseWordleScore now body = Some r"
  then obtain m where m: "regexp_match WORDLE_REGEX body = Some m"
    by (auto simp: parseWordleScore_def split: option.splits)
  from parseWordleScore_match [OF m, of now] obtain r' t where
    t: "parseWordleScore now body = Some r'" "m ! 2 = [t]"
       "(49 \<le> t \<and> t \<le> 54) \<or> t = 88 \<or> t = 120"
       "score r' = (if t = 88 \<or> t = 120 then 7 else int t - 48)"
    by blast
  from t(1) r have "r' = r" by simp
  with t m show "\<exists>m t. regexp_match WORDLE_REGEX body = Some m \<and> m ! 2 = [t] \<and>
             ((of_char CHR ''1'' \<le> t \<and> t \<le> of_char CHR ''6'') \<or>
              t = of_char CHR ''X'' \<or> t = of_char CHR ''x'') \<and>
             score r = (if t = of_char CHR ''X'' \<or> t = of_char CHR ''x'' then 7
                        else int t - of_char CHR ''0'')"
    by (intro exI [of _ m] exI [of _ t]) simp
qed

theorem parse_failed_attempt_witness:
  "regexp_match WORDLE_REGEX (js ''wordle 12 x/6'') =
     Some [js ''wordle 12 x/6'', js ''12'', js ''x'', js ''6'', []] \<and>
   (\<exists>r. parseWordleScore 0 (js ''wordle 12 x/6'') = Some r \<and> score r = 7) \<and>
   parseWordleScore 0 (js ''wordle 12 4/6'') =
     Some \<lparr> wordleNumber = Num 12, score = 4, maxAttempts = Num 6, hardMode = False, timestamp = 0 \<rparr> \<and>
   (\<exists>m t. regexp_match WORDLE_REGEX (js ''wordle 12 4/6'') = Some m \<and> m ! 2 = [t] \<and>
          t = of_char CHR ''4'' \<and>
          score \<lparr> wordleNumber = Num 12, score = 4, maxAttempts = Num 6, hardMode = False, timestamp = 0 \<rparr>
            = int t - of_char CHR ''0'')"
proof -
  have x: "regexp_match WORDLE_REGEX (js ''wordle 12 x/6'') =
     Some [js ''wordle 12 x/6'', js ''12'', js ''x'', js ''6'', []]"
    by (simp add: parse_eval)
  from parse_failed_attempt [of 0] x obtain r t where
    rt: "parseWordleScore 0 (js ''wordle 12 x/6'') = Some r"
        "[js ''wordle 12 x/6'', js ''12'', js ''x'', js ''6'', []] ! 2 = [t]"
        "score r = (if t = of_char CHR ''X'' \<or> t = of_char CHR ''x'' then 7 else int t - of_char CHR ''0'')"
    by blast
  from rt(2) have "t = of_char CHR ''x''" by (simp add: js_def)
  with rt have sx: "\<exists>r. parseWordleScore 0 (js ''wordle 12 x/6'') = Some r \<and> score r = 7"
    by auto
  have p: "parseWordleScore 0 (js ''wordle 12 4/6'') =
     Some \<lparr> wordleNumber = Num 12, score = 4, maxAttempts = Num 6, hardMode = False, timestamp = 0 \<rparr>"
    by (simp add: parse_eval)
  from parse_failed_attempt [of 0] p obtain m t where
    "regexp_match WORDLE_REGEX (js ''wordle 12 4/6'') = Some m" "m ! 2 = [t]"
    "(of_char CHR ''1'' \<le> t \<and> t \<le> of_char CHR ''6'') \<or>
       t = of_char CHR ''X'' \<or> t = of_char CHR ''x''"
    "score \<lparr> wordleNumber = Num 12, score = 4, maxAttempts = Num 6, hardMode = False, timestamp = 0 \<rparr>
       = (if t = of_char CHR ''X'' \<or> t = of_char CHR ''x'' then 7 else int t - of_char CHR ''0'')"
    by blast
  then have "\<exists>m t. regexp_match WORDLE_REGEX (js ''wordle 12 4/6'') = Some m \<and> m ! 2 = [t] \<and>
          t = of_char CHR ''4'' \<and>
          score \<lparr> wordleNumber = Num 12, score = 4, maxAttempts = Num 6, hardMode = False, timestamp = 0 \<rparr>
            = int t - of_char CHR ''0''"
    by (auto split: if_splits)
  with x sx p show ?thesis by blast
qed

text \<open>
  C6. \<^verbatim>\<open>parseWordleScore("Wordle 1,234 3/6*")\<close> is the record with puzzle number 1234, 3
  attempts, 6 attempts at most and hard mode. The first group of the match is the text
  \<^verbatim>\<open>1,234\<close>, comma included: the comma is removed before the digits are read.
\<close>

theorem parse_thousands_separator:
  "parseWordleScore now (js ''Wordle 1,234 3/6*'') =
     Some \<lparr> wordleNumber = Num 1234, score = 3, maxAttempts = Num 6, hardMode = True, timestamp = now \<rparr> \<and>
   regexp_match WORDLE_REGEX (js ''Wordle 1,234 3/6*'') =
     Some [js ''Wordle 1,234 3/6*'', js ''1,234'', js ''3'', js ''6'', js ''*'']"
  by (simp add: parse_eval)

text \<open>
  C10. The pattern is searched for anywhere in the text: when a text \<open>mid\<close> of the pattern
  (keyword, white space, number, white space, result, slash, digits, optional star) stands
  between any two texts \<open>pre\<close> and \<open>post\<close>, parsing returns a record.
\<close>

theorem parse_anywhere:
  assumes "accepts (atoms_of WORDLE_REGEX) mid"
  shows "\<exists>r. parseWordleScore now (pre @ mid @ post) = Some r"
proof -
  from match_parts_complete [OF assms, of post] obtain caps where
    "(caps, post) \<in> set (match_parts WORDLE_REGEX (mid @ post))" ..
  then have "match_parts WORDLE_REGEX (mid @ post) \<noteq> []"
    by (cases "match_parts WORDLE_REGEX (mid @ post)") simp_all
  from regexp_match_complete [OF this] obtain m where
    "regexp_match WORDLE_REGEX (pre @ mid @ post) = Some m" by blast
  from parseWordleScore_match [OF this] show ?thesis by blast
qed

theorem parse_anywhere_witness:
  "accepts (atoms_of WORDLE_REGEX) (js ''Wordle 500 X/6'') \<and>
   (\<exists>r. parseWordleScore 0 (js ''gg '' @ js ''Wordle 500 X/6'' @ js '' nice'') = Some r)"
proof -
  have "accepts (atoms_of WORDLE_REGEX) (js ''Wordle 500 X/6'')"
    by (simp add: accepts_lazy WORDLE_REGEX_def js_def chr_def canonicalize_def
        is_digit_def is_white_space_def)
  with parse_anywhere [of "js ''Wordle 500 X/6''" 0 "js ''gg ''" "js '' nice''"]
  show ?thesis by blast
qed

section \<open>The aggregator: sorting and counting\<close>

lemma set_insert_by: "set (insert_by cmp x xs) = insert x (set xs)"
  by (induction xs) auto

lemma sorted_insert_by:
  "sorted (map f xs) \<Longrightarrow> sorted (map f (insert_by (\<lambda>a b. f a - f b) x xs))"
  by (induction xs) (auto simp: set_insert_by)

lemma sorted_sort_by: "sorted (map f (sort_by (\<lambda>a b. f a - f b) xs))"
  unfolding sort_by_def by (induction xs) (simp_all add: sorted_insert_by)

lemma set_sort_by: "set (sort_by cmp xs) = set xs"
  unfolding sort_by_def by (induction xs) (simp_all add: set_insert_by)

lemma buckets_sum_tally: "buckets_sum (tally d s) = Suc (buckets_sum d)"
  by (simp add: tally_def buckets_sum_def)

lemma buckets_sum_foldl: "buckets_sum (foldl tally d xs) = buckets_sum d + length xs"
  by (induction xs arbitrary: d) (simp_all add: buckets_sum_tally)

lemma stats_loop_member:
  assumes "st \<in> set (stats_loop average startDate endDate entries stats)"
  shows "st \<in> set stats \<or>
         (\<exists>scores. (userId st, scores) \<in> set entries \<and>
            totalGames st =
              length (filter (\<lambda>r. startDate \<le> timestamp r \<and> timestamp r \<le> endDate) scores) \<and>
            buckets_sum (distribution st) = totalGames st)"
  using assms
proof (induction entries arbitrary: stats)
  case Nil
  then show ?case by simp
next
  case (Cons e entries)
  obtain u scores where e: "e = (u, scores)" by (cases e)
  let ?f = "filter (\<lambda>s. timestamp s \<ge> startDate \<and> timestamp s \<le> endDate) scores"
  show ?case
  proof (cases "length ?f > 0")
    case False
    with Cons.prems e have "st \<in> set (stats_loop average startDate endDate entries stats)"
      by simp
    from Cons.IH [OF this] show ?thesis by auto
  next
    case True
    define new where "new = \<lparr> userId = u, totalGames = length ?f,
        averageScore = average (foldl (\<lambda>sum s. sum + score s) 0 ?f) (length ?f),
        distribution = foldl tally \<lparr> bucket1 = 0, bucket2 = 0, bucket3 = 0, bucket4 = 0,
          bucket5 = 0, bucket6 = 0, bucketX = 0 \<rparr> ?f \<rparr>"
    from True Cons.prems e
    have "st \<in> set (stats_loop average startDate endDate entries (stats @ [new]))"
      by (simp add: new_def Let_def)
    from Cons.IH [OF this] consider "st \<in> set stats" | "st = new"
      | "\<exists>scores. (userId st, scores) \<in> set entries \<and>
            totalGames st =
              length (filter (\<lambda>r. startDate \<le> timestamp r \<and> timestamp r \<le> endDate) scores) \<and>
            buckets_sum (distribution st) = totalGames st"
      by auto
    then show ?thesis
    proof cases
      case 1
      then show ?thesis by simp
    next
      case 2
      have "buckets_sum (distribution new) = totalGames new"
        by (simp add: new_def buckets_sum_foldl) (simp add: buckets_sum_def)
      with 2 e show ?thesis by (auto simp: new_def)
    next
      case 3
      then show ?thesis by auto
    qed
  qed
qed

lemma scores_of_entry:
  "distinct (map fst store0) \<Longrightarrow> (u, scores) \<in> set store0 \<Longrightarrow> scores_of store0 u = scores"
  by (simp add: scores_of_def get_def)

section \<open>The store and the two producers\<close>

lemma parse_clock:
  "parseWordleScore now body =
     map_option (\<lambda>r. r\<lparr> timestamp := now \<rparr>) (parseWordleScore now' body)"
  by (simp add: parseWordleScore_def Let_def split: option.splits)

lemma parse_timestamp: "parseWordleScore now body = Some r \<Longrightarrow> timestamp r = now"
  by (auto simp: parseWordleScore_def Let_def split: option.splits)

lemma get_set_entry: "get (set_entry k v m) k' = (if k' = k then Some v else get m k')"
  by (induction m) (auto simp: get_def)

lemma has_get: "has m k \<longleftrightarrow> get m k \<noteq> None"
  by (induction m) (auto simp: has_def get_def)

lemma scores_of_push_score:
  "scores_of (push_score m s store0) u =
     scores_of store0 u @ (if u = author_id m then [s\<lparr> timestamp := createdAt m \<rparr>] else [])"
  by (auto simp: push_score_def scores_of_def has_get get_set_entry Let_def split: option.splits)

lemma stamped_is_stored:
  assumes "parseWordleScore now (content m) = Some s"
  shows "stored_record m = Some (s\<lparr> timestamp := createdAt m \<rparr>)"
  using assms parse_clock [of "createdAt m" "content m" now] by (simp add: stored_record_def)

lemma unparsed_is_not_stored:
  assumes "parseWordleScore now (content m) = None"
  shows "stored_record m = None"
  using assms parse_clock [of "createdAt m" "content m" now] by (simp add: stored_record_def)

lemma records_for_Nil [simp]: "records_for u [] = []"
  by (simp add: records_for_def)

lemma records_for_append: "records_for u (xs @ ys) = records_for u xs @ records_for u ys"
  by (simp add: records_for_def)

lemma records_for_Cons: "records_for u (m # ms) = records_for u [m] @ records_for u ms"
  by (simp add: records_for_def)

lemma scores_of_process_message:
  "scores_of (userScores (process_message clock st m)) u =
     scores_of (userScores st) u @ records_for u [m]"
proof (cases "parseWordleScore (clock (ticks st)) (content m)")
  case None
  from unparsed_is_not_stored [OF this] None show ?thesis
    by (simp add: process_message_def records_for_def)
next
  case (Some s)
  from stamped_is_stored [OF this] Some show ?thesis
    by (simp add: process_message_def records_for_def scores_of_push_score)
qed

lemma scores_of_messageCreate:
  "scores_of (messageCreate now m store0) u =
     scores_of store0 u @
       (if channel_name m = WORDLE_CHANNEL_NAME then records_for u [m] else [])"
proof (cases "parseWordleScore now (content m)")
  case None
  from unparsed_is_not_stored [OF this] None show ?thesis
    by (simp add: messageCreate_def records_for_def)
next
  case (Some s)
  from stamped_is_stored [OF this] Some show ?thesis
    by (simp add: messageCreate_def records_for_def scores_of_push_score)
qed

text \<open>A page is processed up to its first message older than the horizon.\<close>

lemma process_page_fresh:
  "list_all (\<lambda>m. \<not> createdAt m < h) ms \<Longrightarrow>
     process_page clock h ms st = (False, foldl (process_message clock) st ms)"
  by (induction ms arbitrary: st) simp_all

lemma process_page_stops:
  "list_all (\<lambda>m. \<not> createdAt m < h) pre \<Longrightarrow> createdAt m < h \<Longrightarrow>
     process_page clock h (pre @ m # post) st = (True, foldl (process_message clock) st pre)"
  by (induction pre arbitrary: st) simp_all

lemma process_page_prefix:
  "\<exists>pre. (\<exists>post. ms = pre @ post) \<and> list_all (\<lambda>m. \<not> createdAt m < h) pre \<and>
         snd (process_page clock h ms st) = foldl (process_message clock) st pre"
proof (induction ms arbitrary: st)
  case Nil
  show ?case by simp
next
  case (Cons m ms)
  show ?case
  proof (cases "createdAt m < h")
    case True
    then show ?thesis by (intro exI [of _ "[]"]) simp
  next
    case False
    from Cons [of "process_message clock st m"] obtain pre post where
      p: "ms = pre @ post" "list_all (\<lambda>m. \<not> createdAt m < h) pre"
         "snd (process_page clock h ms (process_message clock st m)) =
            foldl (process_message clock) (process_message clock st m) pre"
      by blast
    with False show ?thesis by (intro exI [of _ "m # pre"]) simp
  qed
qed

lemma scores_of_foldl:
  "scores_of (userScores (foldl (process_message clock) st ms)) u =
     scores_of (userScores st) u @ records_for u ms"
proof (induction ms arbitrary: st)
  case Nil
  show ?case by simp
next
  case (Cons m ms)
  show ?case
    by (simp add: Cons scores_of_process_message records_for_Cons [of u m ms])
qed

text \<open>
  The messages a run of the loop has processed: all of them came in a page, none is
  older than the horizon, and the store has grown by their records.
\<close>

lemma fetch_loop_processed:
  "\<exists>ms. list_all (\<lambda>m. \<not> createdAt m < h) ms \<and>
        (\<forall>m \<in> set ms. \<exists>options page. fetch options = Inr page \<and> m \<in> set page) \<and>
        (\<forall>u. scores_of (userScores (snd (snd (fetch_loop fuel fetch clock h lastId mp st)))) u =
               scores_of (userScores st) u @ records_for u ms)"
proof (induction fuel arbitrary: lastId mp st)
  case 0
  show ?case by (intro exI [of _ "[]"]) simp
next
  case (Suc fuel)
  define options where "options = \<lparr> limit = batchSize,
     before = (case lastId of None \<Rightarrow> None | Some i \<Rightarrow> if i = [] then None else Some i) \<rparr>"
  show ?case
  proof (cases "fetch options")
    case (Inl e)
    then show ?thesis by (intro exI [of _ "[]"]) (simp add: options_def [symmetric])
  next
    case (Inr page)
    from process_page_prefix [of page h clock st] obtain pre post where
      p: "page = pre @ post" "list_all (\<lambda>m. \<not> createdAt m < h) pre"
         "snd (process_page clock h page st) = foldl (process_message clock) st pre"
      by blast
    obtain b st1 where r: "process_page clock h page st = (b, st1)"
      by (cases "process_page clock h page st")
    with p have st1: "st1 = foldl (process_message clock) st pre" by simp
    have pre_fetched: "\<forall>m \<in> set pre. \<exists>options page. fetch options = Inr page \<and> m \<in> set page"
    proof
      fix m assume "m \<in> set pre"
      with p(1) have "m \<in> set page" by simp
      with Inr show "\<exists>options page. fetch options = Inr page \<and> m \<in> set page" by blast
    qed
    show ?thesis
    proof (cases "page = [] \<or> b \<or> length page < batchSize")
      case True
      have "\<forall>u. scores_of (userScores (snd (snd (fetch_loop (Suc fuel) fetch clock h lastId mp st)))) u =
               scores_of (userScores st) u @ records_for u pre"
        using True Inr r st1 p(1,2)
        by (auto simp: options_def [symmetric] scores_of_foldl Let_def split: bool.splits)
      with p(2) pre_fetched show ?thesis by blast
    next
      case False
      from Suc [of "Some (message_id (last page))" "mp + length page" st1] obtain ms where
        ms: "list_all (\<lambda>m. \<not> createdAt m < h) ms"
            "\<forall>m \<in> set ms. \<exists>options page. fetch options = Inr page \<and> m \<in> set page"
            "\<forall>u. scores_of (userScores (snd (snd (fetch_loop fuel fetch clock h
                     (Some (message_id (last page))) (mp + length page) st1)))) u =
                  scores_of (userScores st1) u @ records_for u ms"
        by blast
      have "fetch_loop (Suc fuel) fetch clock h lastId mp st =
              fetch_loop fuel fetch clock h (Some (message_id (last page))) (mp + length page) st1"
        using False Inr r by (simp add: options_def [symmetric] Let_def)
      with ms(3) st1
      have "\<forall>u. scores_of (userScores (snd (snd (fetch_loop (Suc fuel) fetch clock h lastId mp st)))) u =
               scores_of (userScores st) u @ records_for u (pre @ ms)"
        by (simp add: scores_of_foldl records_for_append)
      moreover have "list_all (\<lambda>m. \<not> createdAt m < h) (pre @ ms)" using p(2) ms(1) by simp
      moreover have "\<forall>m \<in> set (pre @ ms). \<exists>options page. fetch options = Inr page \<and> m \<in> set page"
        using pre_fetched ms(2) by auto
      ultimately show ?thesis by blast
    qed
  qed
qed

lemma records_for_member:
  assumes "r \<in> set (records_for u ms)"
  shows "\<exists>m \<in> set ms. author_id m = u \<and> stored_record m = Some r \<and> timestamp r = createdAt m"
proof -
  from assms obtain m where m: "m \<in> set ms" "author_id m = u" "stored_record m = Some r"
    by (auto simp: records_for_def split: if_splits option.splits)
  from m(3) have "timestamp r = createdAt m"
    by (simp add: stored_record_def parse_timestamp)
  with m show ?thesis by blast
qed

lemma older_than_last:
  "distinct (map message_id (seen @ rest)) \<Longrightarrow> seen \<noteq> [] \<Longrightarrow>
     older_than (message_id (last seen)) (seen @ rest) = rest"
proof (induction seen)
  case Nil
  then show ?case by simp
next
  case (Cons x seen)
  show ?case
  proof (cases "seen = []")
    case True
    then show ?thesis by simp
  next
    case False
    then have "last seen \<in> set seen" by simp
    with Cons.prems(1) have "message_id x \<noteq> message_id (last seen)" by auto
    with False Cons show ?thesis by simp
  qed
qed

lemma history_fetch_page:
  assumes "distinct (map message_id (seen @ rest))"
    and "list_all (\<lambda>m. message_id m \<noteq> []) (seen @ rest)"
    and "lastId = (if seen = [] then None else Some (message_id (last seen)))"
  shows "history_fetch (seen @ rest)
           \<lparr> limit = batchSize,
             before = (case lastId of None \<Rightarrow> None
                       | Some i \<Rightarrow> if i = [] then None else Some i) \<rparr>
         = Inr (take batchSize rest)"
proof (cases "seen = []")
  case True
  with assms(3) show ?thesis by (simp add: history_fetch_def)
next
  case False
  then have "last seen \<in> set seen" by simp
  with assms(2) have "message_id (last seen) \<noteq> []" by (auto simp: list_all_iff)
  with False assms(3) older_than_last [OF assms(1) False] show ?thesis
    by (simp add: history_fetch_def)
qed




lemma records_for_fresh:
  assumes "list_all (\<lambda>m. \<not> createdAt m < h) ms"
  shows "list_all (\<lambda>r. h \<le> timestamp r) (records_for u ms)"
proof -
  have "h \<le> timestamp r" if "r \<in> set (records_for u ms)" for r
  proof -
    from records_for_member [OF that] obtain m where
      "m \<in> set ms" "timestamp r = createdAt m" by blast
    with assms show ?thesis by (auto simp: list_all_iff)
  qed
  then show ?thesis by (simp add: list_all_iff)
qed

lemmas store_eval =
  process_message_def push_score_def has_def get_def scores_of_def records_for_def
  stored_record_def messageCreate_def WORDLE_CHANNEL_NAME_def

text \<open>
  A page with a message older than the horizon ends the loop at once; against a fixed
  history the loop ends in the page that holds the first such message.
\<close>

lemma fetch_loop_stops:
  assumes "list_all (\<lambda>m. \<not> createdAt m < h) pre" and "createdAt m < h"
    and "fetch \<lparr> limit = batchSize,
                 before = (case lastId of None \<Rightarrow> None
                           | Some i \<Rightarrow> if i = [] then None else Some i) \<rparr>
           = Inr (pre @ m # post)"
  shows "fetch_loop (Suc fuel) fetch clock h lastId mp st =
           (ReachedOldMessages, mp + length (pre @ m # post),
            foldl (process_message clock) st pre)"
  using assms(3) process_page_stops [OF assms(1,2), of clock post st]
  by (simp add: Let_def)

lemma fetch_loop_history_old:
  assumes "distinct (map message_id (seen @ newer @ m # older))"
    and "list_all (\<lambda>m. message_id m \<noteq> []) (seen @ newer @ m # older)"
    and "list_all (\<lambda>m. \<not> createdAt m < h) newer"
    and "createdAt m < h"
    and "lastId = (if seen = [] then None else Some (message_id (last seen)))"
    and "length newer div batchSize < fuel"
  shows "fetch_loop fuel (history_fetch (seen @ newer @ m # older)) clock h lastId mp st =
           (ReachedOldMessages,
            mp + min (length (newer @ m # older)) ((length newer div batchSize + 1) * batchSize),
            foldl (process_message clock) st newer)"
  using assms
proof (induction fuel arbitrary: seen newer lastId mp st)
  case 0
  then show ?case by simp
next
  case (Suc fuel)
  let ?rest = "newer @ m # older"
  let ?page = "take batchSize ?rest"
  note page = history_fetch_page [OF Suc.prems(1,2,5)]
  show ?case
  proof (cases "length newer < batchSize")
    case True
    then have p: "?page = newer @ m # take (batchSize - Suc (length newer)) older"
      by (simp add: take_Cons')
    have len: "length ?page = min (length ?rest) batchSize" by simp
    from True have d: "length newer div batchSize = 0" by simp
    have "fetch_loop (Suc fuel) (history_fetch (seen @ ?rest)) clock h lastId mp st =
            (ReachedOldMessages,
             mp + length (newer @ m # take (batchSize - Suc (length newer)) older),
             foldl (process_message clock) st newer)"
      by (rule fetch_loop_stops [OF Suc.prems(3,4)]) (use page p in simp)
    then show ?thesis using len d unfolding p [symmetric] by simp
  next
    case False
    then have lp: "batchSize \<le> length newer" by simp
    then have pg: "?page = take batchSize newer" by simp
    have ne: "?page \<noteq> []" using lp by (auto simp: batchSize_def)
    have lenp: "length ?page = batchSize" using lp by simp
    from Suc.prems(3) have fresh: "list_all (\<lambda>m. \<not> createdAt m < h) ?page"
      unfolding pg by (auto simp: list_all_iff dest: in_set_takeD)
    note pp = process_page_fresh [OF fresh, of clock st]
    let ?seen = "seen @ ?page" and ?newer = "drop batchSize newer"
    have split: "?seen @ ?newer @ m # older = seen @ newer @ m # older"
      unfolding pg by simp
    have 1: "distinct (map message_id (?seen @ ?newer @ m # older))"
      using Suc.prems(1) unfolding split .
    have 2: "list_all (\<lambda>m. message_id m \<noteq> []) (?seen @ ?newer @ m # older)"
      using Suc.prems(2) unfolding split .
    have 3: "list_all (\<lambda>m. \<not> createdAt m < h) ?newer"
      using Suc.prems(3) by (auto simp: list_all_iff dest: in_set_dropD)
    have 5: "Some (message_id (last ?page)) =
               (if ?seen = [] then None else Some (message_id (last ?seen)))"
      using ne by simp
    have dv: "length newer div batchSize = Suc (length ?newer div batchSize)"
      using lp by (simp add: batchSize_def le_div_geq)
    with Suc.prems(6) have 6: "length ?newer div batchSize < fuel" by simp
    have ih: "fetch_loop fuel (history_fetch (seen @ newer @ m # older)) clock h
                (Some (message_id (last ?page))) (mp + length ?page)
                (foldl (process_message clock) st ?page) =
              (ReachedOldMessages,
               mp + length ?page +
                 min (length (?newer @ m # older)) ((length ?newer div batchSize + 1) * batchSize),
               foldl (process_message clock) (foldl (process_message clock) st ?page) ?newer)"
      using Suc.IH [OF 1 2 3 Suc.prems(4) 5 6] unfolding split .
    have "foldl (process_message clock) (foldl (process_message clock) st ?page) ?newer =
            foldl (process_message clock) st (take batchSize newer @ ?newer)"
      unfolding pg by (simp only: foldl_append)
    then have fold: "foldl (process_message clock) (foldl (process_message clock) st ?page) ?newer =
            foldl (process_message clock) st newer" by simp
    have cnt: "mp + length ?page +
                 min (length (?newer @ m # older)) ((length ?newer div batchSize + 1) * batchSize) =
               mp + min (length (newer @ m # older)) ((length newer div batchSize + 1) * batchSize)"
    proof -
      have A: "batchSize + length (?newer @ m # older) = length (newer @ m # older)"
        using lp by simp
      have B: "batchSize + (length ?newer div batchSize + 1) * batchSize =
                 (length newer div batchSize + 1) * batchSize"
        unfolding dv by simp
      have "mp + length ?page +
              min (length (?newer @ m # older)) ((length ?newer div batchSize + 1) * batchSize) =
            mp + min (batchSize + length (?newer @ m # older))
                     (batchSize + (length ?newer div batchSize + 1) * batchSize)"
        unfolding lenp by (simp only: min_add_distrib_right add.assoc)
      then show ?thesis unfolding A B .
    qed
    have "fetch_loop (Suc fuel) (history_fetch (seen @ newer @ m # older)) clock h lastId mp st =
            fetch_loop fuel (history_fetch (seen @ newer @ m # older)) clock h
                (Some (message_id (last ?page))) (mp + length ?page)
                (foldl (process_message clock) st ?page)"
    proof -
      define pg' where "pg' = ?page"
      have f: "history_fetch (seen @ newer @ m # older)
                 \<lparr> limit = batchSize,
                   before = (case lastId of None \<Rightarrow> None
                             | Some i \<Rightarrow> if i = [] then None else Some i) \<rparr> = Inr pg'"
        using page unfolding pg'_def .
      have n: "pg' \<noteq> []" using ne unfolding pg'_def .
      have l: "length pg' = batchSize" using lenp unfolding pg'_def .
      have p: "process_page clock h pg' st = (False, foldl (process_message clock) st pg')"
        using pp unfolding pg'_def .
      have "fetch_loop (Suc fuel) (history_fetch (seen @ newer @ m # older)) clock h lastId mp st =
            fetch_loop fuel (history_fetch (seen @ newer @ m # older)) clock h
                (Some (message_id (last pg'))) (mp + length pg')
                (foldl (process_message clock) st pg')"
        using f n l p by (auto simp: Let_def)
      then show ?thesis unfolding pg'_def .
    qed
    also note ih
    finally show ?thesis unfolding fold cnt .
  qed
qed

text \<open>The keys of the store stay distinct, as the keys of a \<^verbatim>\<open>Map\<close> do.\<close>

lemma keys_set_entry:
  "map fst (set_entry k v m) = (if k \<in> set (map fst m) then map fst m else map fst m @ [k])"
  by (induction m) force+

lemma distinct_set_entry:
  "distinct (map fst m) \<Longrightarrow> distinct (map fst (set_entry k v m))"
  by (simp add: keys_set_entry)

lemma distinct_push_score:
  "distinct (map fst store0) \<Longrightarrow> distinct (map fst (push_score m s store0))"
  by (simp add: push_score_def Let_def distinct_set_entry split: option.splits)

lemma distinct_messageCreate:
  "distinct (map fst store0) \<Longrightarrow> distinct (map fst (messageCreate now m store0))"
  by (simp add: messageCreate_def distinct_push_score split: option.splits)

lemma distinct_process_message:
  "distinct (map fst (userScores st)) \<Longrightarrow>
     distinct (map fst (userScores (process_message clock st m)))"
  by (simp add: process_message_def distinct_push_score split: option.splits)

lemma distinct_process_page:
  "distinct (map fst (userScores st)) \<Longrightarrow>
     distinct (map fst (userScores (snd (process_page clock h ms st))))"
  by (induction ms arbitrary: st) (simp_all add: distinct_process_message)

lemma distinct_fetch_loop:
  "distinct (map fst (userScores st)) \<Longrightarrow>
     distinct (map fst (userScores (snd (snd (fetch_loop fuel fetch clock h lastId mp st)))))"
proof (induction fuel arbitrary: lastId mp st)
  case 0
  then show ?case by simp
next
  case (Suc fuel)
  define options where "options = \<lparr> limit = batchSize,
     before = (case lastId of None \<Rightarrow> None | Some i \<Rightarrow> if i = [] then None else Some i) \<rparr>"
  show ?case
  proof (cases "fetch options")
    case (Inl e)
    with Suc.prems show ?thesis by (simp add: options_def [symmetric])
  next
    case (Inr page)
    obtain b st1 where r: "process_page clock h page st = (b, st1)"
      by (cases "process_page clock h page st")
    from distinct_process_page [OF Suc.prems, of clock h page] r
    have d: "distinct (map fst (userScores st1))" by simp
    from Suc.IH [OF d] Suc.prems d Inr r show ?thesis
      by (auto simp: options_def [symmetric] Let_def split: bool.splits)
  qed
qed

section \<open>Properties of the backfill and of the live handler\<close>

text \<open>
  C2. The backfill never stores a record older than the horizon \<^verbatim>\<open>oneYearAgo\<close>, and it
  stops at the first message older than the horizon. When messages \<open>pre\<close> that are not
  older than the horizon are followed by a message \<open>m\<close> that is:
  \<^item> the loop over a page \<open>pre @ m # post\<close> returns at \<open>m\<close>: its result is the state after
    \<open>pre\<close> alone, whatever \<open>m\<close> and the messages \<open>post\<close> behind it are, and the store has grown
    by the records of \<open>pre\<close> only;
  \<^item> when the source answers the next request with the page \<open>pre @ m # post\<close>, the crawl ends
    there as \<open>ReachedOldMessages\<close>, in the state after \<open>pre\<close>: no further page is fetched or
    processed, whatever the source would answer;
  \<^item> against a fixed history \<open>pre @ m # post\<close> (newest first, distinct non-empty ids) the
    whole backfill ends as \<open>ReachedOldMessages\<close> in the state obtained by processing the
    messages of \<open>pre\<close> once each, having fetched only the pages up to the one that holds
    \<open>m\<close>.
  And for every source, clock, starting state and number of pages, each user's records
  after the loop are the records before it followed by records that are all at or after
  the horizon.
\<close>

theorem backfill_stops_at_horizon:
  "(list_all (\<lambda>m. \<not> createdAt m < oneYearAgo) pre \<and> createdAt m < oneYearAgo \<longrightarrow>
      process_page clock oneYearAgo (pre @ m # post) st =
        (True, foldl (process_message clock) st pre) \<and>
      (\<forall>u. scores_of (userScores (snd (process_page clock oneYearAgo (pre @ m # post) st))) u =
             scores_of (userScores st) u @ records_for u pre) \<and>
      (fetch \<lparr> limit = batchSize, before = (case lastId of None \<Rightarrow> None | Some i \<Rightarrow> if i = [] then None else Some i) \<rparr> = Inr (pre @ m # post) \<longrightarrow>
         fetch_loop (Suc fuel) fetch clock oneYearAgo lastId mp st =
           (ReachedOldMessages, mp + length (pre @ m # post),
            foldl (process_message clock) st pre)) \<and>
      (distinct (map message_id (pre @ m # post)) \<and>
       list_all (\<lambda>m. message_id m \<noteq> []) (pre @ m # post) \<and>
       length pre div 100 < fuel \<longrightarrow>
         fetchHistoricalMessages fuel (Some (history_fetch (pre @ m # post))) clock oneYearAgo initial =
           Crawled ReachedOldMessages
             (min (length (pre @ m # post)) ((length pre div 100 + 1) * 100))
             (foldl (process_message clock)
                \<lparr> scoresFound = 0, userScores = initial, ticks = 0 \<rparr> pre))) \<and>
   (\<forall>u. \<exists>new.
      scores_of (userScores (snd (snd (fetch_loop fuel fetch clock oneYearAgo lastId mp st)))) u =
        scores_of (userScores st) u @ new \<and>
      list_all (\<lambda>r. oneYearAgo \<le> timestamp r) new)"
proof (intro conjI impI allI)
  assume a: "list_all (\<lambda>m. \<not> createdAt m < oneYearAgo) pre \<and> createdAt m < oneYearAgo"
  then have fresh: "list_all (\<lambda>m. \<not> createdAt m < oneYearAgo) pre"
    and old: "createdAt m < oneYearAgo" by simp_all
  from a show "process_page clock oneYearAgo (pre @ m # post) st =
        (True, foldl (process_message clock) st pre)"
    by (simp add: process_page_stops)
  {
    fix u
    from a show "scores_of (userScores (snd (process_page clock oneYearAgo (pre @ m # post) st))) u =
             scores_of (userScores st) u @ records_for u pre"
      by (simp add: process_page_stops scores_of_foldl)
  }
  {
    assume "fetch \<lparr> limit = batchSize, before = (case lastId of None \<Rightarrow> None | Some i \<Rightarrow> if i = [] then None else Some i) \<rparr> = Inr (pre @ m # post)"
    from fetch_loop_stops [where fetch = fetch and lastId = lastId and post = post,
        OF fresh old this]
    show "fetch_loop (Suc fuel) fetch clock oneYearAgo lastId mp st =
           (ReachedOldMessages, mp + length (pre @ m # post),
            foldl (process_message clock) st pre)" .
  }
  {
    assume h: "distinct (map message_id (pre @ m # post)) \<and>
       list_all (\<lambda>m. message_id m \<noteq> []) (pre @ m # post) \<and>
       length pre div 100 < fuel"
    let ?st0 = "\<lparr> scoresFound = 0, userScores = initial, ticks = 0 \<rparr>"
    have "fetch_loop fuel (history_fetch ([] @ pre @ m # post)) clock oneYearAgo None 0 ?st0 =
            (ReachedOldMessages,
             0 + min (length (pre @ m # post)) ((length pre div batchSize + 1) * batchSize),
             foldl (process_message clock) ?st0 pre)"
      by (rule fetch_loop_history_old [OF _ _ fresh old]) (use h in \<open>simp_all add: batchSize_def\<close>)
    then show "fetchHistoricalMessages fuel (Some (history_fetch (pre @ m # post))) clock oneYearAgo initial =
           Crawled ReachedOldMessages
             (min (length (pre @ m # post)) ((length pre div 100 + 1) * 100))
             (foldl (process_message clock) ?st0 pre)"
      by (simp add: fetchHistoricalMessages_def batchSize_def)
  }
next
  fix u
  from fetch_loop_processed [of oneYearAgo fetch fuel clock lastId mp st] obtain ms where
    ms: "list_all (\<lambda>m. \<not> createdAt m < oneYearAgo) ms"
        "\<forall>u. scores_of (userScores (snd (snd (fetch_loop fuel fetch clock oneYearAgo lastId mp st)))) u =
               scores_of (userScores st) u @ records_for u ms"
    by blast
  from ms(2) records_for_fresh [OF ms(1), of u]
  show "\<exists>new.
      scores_of (userScores (snd (snd (fetch_loop fuel fetch clock oneYearAgo lastId mp st)))) u =
        scores_of (userScores st) u @ new \<and>
      list_all (\<lambda>r. oneYearAgo \<le> timestamp r) new"
    by blast
qed

theorem backfill_stops_at_horizon_witness:
  "list_all (\<lambda>m. \<not> createdAt m < 10) [\<lparr> message_id = js ''3'', content = js ''Wordle 500 X/6'', author_id = js ''u1'', createdAt = 20, channel_name = js ''gamers-rise-up'' \<rparr>] \<and>
   createdAt \<lparr> message_id = js ''2'', content = js ''Wordle 499 3/6'', author_id = js ''u1'', createdAt = 3, channel_name = js ''gamers-rise-up'' \<rparr> < 10 \<and>
   process_page (\<lambda>n. 1000) 10
     ([\<lparr> message_id = js ''3'', content = js ''Wordle 500 X/6'', author_id = js ''u1'', createdAt = 20, channel_name = js ''gamers-rise-up'' \<rparr>] @ \<lparr> message_id = js ''2'', content = js ''Wordle 499 3/6'', author_id = js ''u1'', createdAt = 3, channel_name = js ''gamers-rise-up'' \<rparr> # [\<lparr> message_id = js ''1'', content = js ''Wordle 498 2/6'', author_id = js ''u2'', createdAt = 30, channel_name = js ''gamers-rise-up'' \<rparr>])
     \<lparr> scoresFound = 0, userScores = [], ticks = 0 \<rparr> =
   (True, \<lparr> scoresFound = 1, userScores = [(js ''u1'', [\<lparr> wordleNumber = Num 500, score = 7, maxAttempts = Num 6, hardMode = False, timestamp = 20 \<rparr>])], ticks = 1 \<rparr>) \<and>
   history_fetch ([\<lparr> message_id = js ''3'', content = js ''Wordle 500 X/6'', author_id = js ''u1'', createdAt = 20, channel_name = js ''gamers-rise-up'' \<rparr>] @ \<lparr> message_id = js ''2'', content = js ''Wordle 499 3/6'', author_id = js ''u1'', createdAt = 3, channel_name = js ''gamers-rise-up'' \<rparr> # [\<lparr> message_id = js ''1'', content = js ''Wordle 498 2/6'', author_id = js ''u2'', createdAt = 30, channel_name = js ''gamers-rise-up'' \<rparr>])
     \<lparr> limit = batchSize, before = (case None of None \<Rightarrow> None | Some i \<Rightarrow> if i = [] then None else Some i) \<rparr> =
   Inr ([\<lparr> message_id = js ''3'', content = js ''Wordle 500 X/6'', author_id = js ''u1'', createdAt = 20, channel_name = js ''gamers-rise-up'' \<rparr>] @ \<lparr> message_id = js ''2'', content = js ''Wordle 499 3/6'', author_id = js ''u1'', createdAt = 3, channel_name = js ''gamers-rise-up'' \<rparr> # [\<lparr> message_id = js ''1'', content = js ''Wordle 498 2/6'', author_id = js ''u2'', createdAt = 30, channel_name = js ''gamers-rise-up'' \<rparr>]) \<and>
   fetch_loop (Suc 0) (history_fetch ([\<lparr> message_id = js ''3'', content = js ''Wordle 500 X/6'', author_id = js ''u1'', createdAt = 20, channel_name = js ''gamers-rise-up'' \<rparr>] @ \<lparr> message_id = js ''2'', content = js ''Wordle 499 3/6'', author_id = js ''u1'', createdAt = 3, channel_name = js ''gamers-rise-up'' \<rparr> # [\<lparr> message_id = js ''1'', content = js ''Wordle 498 2/6'', author_id = js ''u2'', createdAt = 30, channel_name = js ''gamers-rise-up'' \<rparr>])) (\<lambda>n. 1000) 10 None 0
     \<lparr> scoresFound = 0, userScores = [], ticks = 0 \<rparr> =
   (ReachedOldMessages, 3, \<lparr> scoresFound = 1, userScores = [(js ''u1'', [\<lparr> wordleNumber = Num 500, score = 7, maxAttempts = Num 6, hardMode = False, timestamp = 20 \<rparr>])], ticks = 1 \<rparr>) \<and>
   distinct (map message_id ([\<lparr> message_id = js ''3'', content = js ''Wordle 500 X/6'', author_id = js ''u1'', createdAt = 20, channel_name = js ''gamers-rise-up'' \<rparr>] @ \<lparr> message_id = js ''2'', content = js ''Wordle 499 3/6'', author_id = js ''u1'', createdAt = 3, channel_name = js ''gamers-rise-up'' \<rparr> # [\<lparr> message_id = js ''1'', content = js ''Wordle 498 2/6'', author_id = js ''u2'', createdAt = 30, channel_name = js ''gamers-rise-up'' \<rparr>])) \<and>
   list_all (\<lambda>m. message_id m \<noteq> []) ([\<lparr> message_id = js ''3'', content = js ''Wordle 500 X/6'', author_id = js ''u1'', createdAt = 20, channel_name = js ''gamers-rise-up'' \<rparr>] @ \<lparr> message_id = js ''2'', content = js ''Wordle 499 3/6'', author_id = js ''u1'', createdAt = 3, channel_name = js ''gamers-rise-up'' \<rparr> # [\<lparr> message_id = js ''1'', content = js ''Wordle 498 2/6'', author_id = js ''u2'', createdAt = 30, channel_name = js ''gamers-rise-up'' \<rparr>]) \<and>
   length [\<lparr> message_id = js ''3'', content = js ''Wordle 500 X/6'', author_id = js ''u1'', createdAt = 20, channel_name = js ''gamers-rise-up'' \<rparr>] div 100 < Suc 0 \<and>
   fetchHistoricalMessages (Suc 0) (Some (history_fetch ([\<lparr> message_id = js ''3'', content = js ''Wordle 500 X/6'', author_id = js ''u1'', createdAt = 20, channel_name = js ''gamers-rise-up'' \<rparr>] @ \<lparr> message_id = js ''2'', content = js ''Wordle 499 3/6'', author_id = js ''u1'', createdAt = 3, channel_name = js ''gamers-rise-up'' \<rparr> # [\<lparr> message_id = js ''1'', content = js ''Wordle 498 2/6'', author_id = js ''u2'', createdAt = 30, channel_name = js ''gamers-rise-up'' \<rparr>]))) (\<lambda>n. 1000) 10 [] =
   Crawled ReachedOldMessages 3 \<lparr> scoresFound = 1, userScores = [(js ''u1'', [\<lparr> wordleNumber = Num 500, score = 7, maxAttempts = Num 6, hardMode = False, timestamp = 20 \<rparr>])], ticks = 1 \<rparr>"
proof -
  let ?pre = "[\<lparr> message_id = js ''3'', content = js ''Wordle 500 X/6'', author_id = js ''u1'', createdAt = 20, channel_name = js ''gamers-rise-up'' \<rparr>]"
  let ?m = "\<lparr> message_id = js ''2'', content = js ''Wordle 499 3/6'', author_id = js ''u1'', createdAt = 3, channel_name = js ''gamers-rise-up'' \<rparr>"
  let ?post = "[\<lparr> message_id = js ''1'', content = js ''Wordle 498 2/6'', author_id = js ''u2'', createdAt = 30, channel_name = js ''gamers-rise-up'' \<rparr>]"
  let ?st0 = "\<lparr> scoresFound = 0, userScores = [], ticks = 0 \<rparr>"
  let ?st1 = "\<lparr> scoresFound = 1, userScores = [(js ''u1'', [\<lparr> wordleNumber = Num 500, score = 7, maxAttempts = Num 6, hardMode = False, timestamp = 20 \<rparr>])], ticks = 1 \<rparr>"
  have h: "list_all (\<lambda>m. \<not> createdAt m < 10) ?pre \<and> createdAt ?m < 10"
    by simp
  have f: "foldl (process_message (\<lambda>n. 1000)) ?st0 ?pre = ?st1"
    by (simp add: store_eval parse_eval)
  have p: "history_fetch (?pre @ ?m # ?post)
     \<lparr> limit = batchSize, before = (case None of None \<Rightarrow> None | Some i \<Rightarrow> if i = [] then None else Some i) \<rparr> =
     Inr (?pre @ ?m # ?post)"
    by (simp add: history_fetch_def batchSize_def)
  have d: "distinct (map message_id (?pre @ ?m # ?post)) \<and>
     list_all (\<lambda>m. message_id m \<noteq> []) (?pre @ ?m # ?post) \<and>
     length ?pre div 100 < Suc 0"
    by (simp add: js_def)
  note t = backfill_stops_at_horizon [where oneYearAgo = 10 and pre = ?pre and m = ?m
      and post = ?post and clock = "\<lambda>n. 1000" and st = ?st0
      and fetch = "history_fetch (?pre @ ?m # ?post)" and lastId = None and mp = 0
      and fuel = 0 and initial = "[]"]
  note t' = backfill_stops_at_horizon [where oneYearAgo = 10 and pre = ?pre and m = ?m
      and post = ?post and clock = "\<lambda>n. 1000" and st = ?st0
      and fetch = "history_fetch (?pre @ ?m # ?post)" and lastId = None and mp = 0
      and fuel = "Suc 0" and initial = "[]"]
  from t h have 1: "process_page (\<lambda>n. 1000) 10 (?pre @ ?m # ?post) ?st0 =
      (True, foldl (process_message (\<lambda>n. 1000)) ?st0 ?pre)"
    by blast
  from t h p have 2: "fetch_loop (Suc 0) (history_fetch (?pre @ ?m # ?post)) (\<lambda>n. 1000) 10 None 0 ?st0 =
      (ReachedOldMessages, 0 + length (?pre @ ?m # ?post),
       foldl (process_message (\<lambda>n. 1000)) ?st0 ?pre)"
    by blast
  from t' h d have 3: "fetchHistoricalMessages (Suc 0) (Some (history_fetch (?pre @ ?m # ?post)))
        (\<lambda>n. 1000) 10 [] =
      Crawled ReachedOldMessages
        (min (length (?pre @ ?m # ?post)) ((length ?pre div 100 + 1) * 100))
        (foldl (process_message (\<lambda>n. 1000)) ?st0 ?pre)"
    by blast
  have 1: "process_page (\<lambda>n. 1000) 10 (?pre @ ?m # ?post) ?st0 = (True, ?st1)"
    using 1 unfolding f .
  have 2: "fetch_loop (Suc 0) (history_fetch (?pre @ ?m # ?post)) (\<lambda>n. 1000) 10 None 0 ?st0 =
      (ReachedOldMessages, 3, ?st1)"
    using 2 unfolding f by simp
  have 3: "fetchHistoricalMessages (Suc 0) (Some (history_fetch (?pre @ ?m # ?post)))
        (\<lambda>n. 1000) 10 [] = Crawled ReachedOldMessages 3 ?st1"
    using 3 unfolding f by simp
  from h p d 1 2 3 show ?thesis by blast
qed



text \<open>
  C7. Every record that the live handler or the backfill appends carries the creation
  time of its message. The live handler extends the records of each user \<open>u\<close> by
  \<open>records_for u [message]\<close> (by nothing for another channel); the backfill extends them by
  \<open>records_for u ms\<close> for a list \<open>ms\<close> of messages that came in pages of the source. And each
  record of \<open>records_for u ms\<close> belongs to a message \<open>m\<close> of \<open>u\<close> in \<open>ms\<close>, has \<open>createdAt m\<close> as
  its timestamp, and is what parsing the text of \<open>m\<close> gives at any time \<open>now'\<close> of the clock
  once the timestamp is overwritten.
\<close>

theorem stored_timestamp_is_creation_time:
  "(\<forall>u. scores_of (messageCreate now message store0) u =
          scores_of store0 u @
            (if channel_name message = WORDLE_CHANNEL_NAME then records_for u [message] else [])) \<and>
   (\<exists>ms. (\<forall>m \<in> set ms. \<exists>options page. fetch options = Inr page \<and> m \<in> set page) \<and>
         (\<forall>u. scores_of (userScores (snd (snd (fetch_loop fuel fetch clock oneYearAgo lastId mp st)))) u =
                scores_of (userScores st) u @ records_for u ms)) \<and>
   (\<forall>u ms r. r \<in> set (records_for u ms) \<longrightarrow>
      (\<exists>m \<in> set ms. author_id m = u \<and> timestamp r = createdAt m \<and>
         (\<forall>now'. map_option (\<lambda>s. s\<lparr> timestamp := createdAt m \<rparr>)
                   (parseWordleScore now' (content m)) = Some r)))"
proof (intro conjI allI impI)
  fix u
  show "scores_of (messageCreate now message store0) u =
          scores_of store0 u @
            (if channel_name message = WORDLE_CHANNEL_NAME then records_for u [message] else [])"
    by (rule scores_of_messageCreate)
next
  from fetch_loop_processed [of oneYearAgo fetch fuel clock lastId mp st]
  show "\<exists>ms. (\<forall>m \<in> set ms. \<exists>options page. fetch options = Inr page \<and> m \<in> set page) \<and>
         (\<forall>u. scores_of (userScores (snd (snd (fetch_loop fuel fetch clock oneYearAgo lastId mp st)))) u =
                scores_of (userScores st) u @ records_for u ms)"
    by blast
next
  fix u ms r
  assume "r \<in> set (records_for u ms)"
  from records_for_member [OF this] obtain m where
    m: "m \<in> set ms" "author_id m = u" "stored_record m = Some r" "timestamp r = createdAt m"
    by blast
  have "map_option (\<lambda>s. s\<lparr> timestamp := createdAt m \<rparr>) (parseWordleScore now' (content m)) = Some r"
    for now'
    using m(3) parse_clock [of "createdAt m" "content m" now']
    by (simp add: stored_record_def)
  with m show "\<exists>m \<in> set ms. author_id m = u \<and> timestamp r = createdAt m \<and>
         (\<forall>now'. map_option (\<lambda>s. s\<lparr> timestamp := createdAt m \<rparr>)
                   (parseWordleScore now' (content m)) = Some r)"
    by blast
qed

theorem stored_timestamp_is_creation_time_witness:
  "scores_of (messageCreate 999 \<lparr> message_id = js ''3'', content = js ''Wordle 500 X/6'', author_id = js ''u1'', createdAt = 20, channel_name = js ''gamers-rise-up'' \<rparr> []) (js ''u1'') = [\<lparr> wordleNumber = Num 500, score = 7, maxAttempts = Num 6, hardMode = False, timestamp = 20 \<rparr>] \<and>
   createdAt \<lparr> message_id = js ''3'', content = js ''Wordle 500 X/6'', author_id = js ''u1'', createdAt = 20, channel_name = js ''gamers-rise-up'' \<rparr> = 20"
proof -
  have r: "records_for (js ''u1'') [\<lparr> message_id = js ''3'', content = js ''Wordle 500 X/6'', author_id = js ''u1'', createdAt = 20, channel_name = js ''gamers-rise-up'' \<rparr>] = [\<lparr> wordleNumber = Num 500, score = 7, maxAttempts = Num 6, hardMode = False, timestamp = 20 \<rparr>]"
    by (simp add: records_for_def stored_record_def parse_eval)
  from stored_timestamp_is_creation_time [of 999 "\<lparr> message_id = js ''3'', content = js ''Wordle 500 X/6'', author_id = js ''u1'', createdAt = 20, channel_name = js ''gamers-rise-up'' \<rparr>" "[]"]
  have "scores_of (messageCreate 999 \<lparr> message_id = js ''3'', content = js ''Wordle 500 X/6'', author_id = js ''u1'', createdAt = 20, channel_name = js ''gamers-rise-up'' \<rparr> []) (js ''u1'') =
          scores_of [] (js ''u1'') @
            (if channel_name \<lparr> message_id = js ''3'', content = js ''Wordle 500 X/6'', author_id = js ''u1'', createdAt = 20, channel_name = js ''gamers-rise-up'' \<rparr> = WORDLE_CHANNEL_NAME then records_for (js ''u1'') [\<lparr> message_id = js ''3'', content = js ''Wordle 500 X/6'', author_id = js ''u1'', createdAt = 20, channel_name = js ''gamers-rise-up'' \<rparr>] else [])"
    by blast
  with r show ?thesis by (simp add: scores_of_def get_def WORDLE_CHANNEL_NAME_def)
qed

section \<open>Properties of \<^verbatim>\<open>calculateStats\<close> and of the window\<close>

text \<open>
  C3. For every window and every entry \<open>st\<close> of the result of \<^verbatim>\<open>calculateStats\<close>, the seven
  buckets of its distribution add up to \<open>totalGames st\<close>, and \<open>totalGames st\<close> is the number
  of stored records of the user \<open>userId st\<close> with a timestamp from \<open>startDate\<close> to \<open>endDate\<close>,
  both included. The keys of the store are distinct, as the keys of a \<^verbatim>\<open>Map\<close> are: both
  producers keep them so (\<open>distinct_messageCreate\<close>, \<open>distinct_fetch_loop\<close>).
\<close>

theorem stats_buckets_and_total:
  assumes "distinct (map fst store0)"
    and "st \<in> set (calculateStats average startDate endDate store0)"
  shows "bucket1 (distribution st) + bucket2 (distribution st) + bucket3 (distribution st) +
         bucket4 (distribution st) + bucket5 (distribution st) + bucket6 (distribution st) +
         bucketX (distribution st) = totalGames st \<and>
         totalGames st =
           length (filter (\<lambda>r. startDate \<le> timestamp r \<and> timestamp r \<le> endDate)
                     (scores_of store0 (userId st)))"
proof -
  from assms(2) have "st \<in> set (stats_loop average startDate endDate store0 [])"
    by (simp add: calculateStats_def set_sort_by)
  from stats_loop_member [OF this] obtain scores where
    s: "(userId st, scores) \<in> set store0"
       "totalGames st =
          length (filter (\<lambda>r. startDate \<le> timestamp r \<and> timestamp r \<le> endDate) scores)"
       "buckets_sum (distribution st) = totalGames st"
    by auto
  from scores_of_entry [OF assms(1) s(1)] s(2,3) show ?thesis
    by (simp add: buckets_sum_def)
qed

theorem stats_buckets_and_total_witness:
  "distinct (map fst [(js ''u1'', [\<lparr> wordleNumber = Num 500, score = 2, maxAttempts = Num 6, hardMode = False, timestamp = 5 \<rparr>, \<lparr> wordleNumber = Num 501, score = 4, maxAttempts = Num 6, hardMode = False, timestamp = 6 \<rparr>, \<lparr> wordleNumber = Num 502, score = 7, maxAttempts = Num 6, hardMode = False, timestamp = 7 \<rparr>, \<lparr> wordleNumber = Num 503, score = 3, maxAttempts = Num 6, hardMode = False, timestamp = 100 \<rparr>])]) \<and>
   calculateStats (\<lambda>t n. of_int t / of_nat n) 0 10 [(js ''u1'', [\<lparr> wordleNumber = Num 500, score = 2, maxAttempts = Num 6, hardMode = False, timestamp = 5 \<rparr>, \<lparr> wordleNumber = Num 501, score = 4, maxAttempts = Num 6, hardMode = False, timestamp = 6 \<rparr>, \<lparr> wordleNumber = Num 502, score = 7, maxAttempts = Num 6, hardMode = False, timestamp = 7 \<rparr>, \<lparr> wordleNumber = Num 503, score = 3, maxAttempts = Num 6, hardMode = False, timestamp = 100 \<rparr>])] =
     [\<lparr> userId = js ''u1'', totalGames = 3, averageScore = 13 / 3, distribution = \<lparr> bucket1 = 0, bucket2 = 1, bucket3 = 0, bucket4 = 1, bucket5 = 0, bucket6 = 0, bucketX = 1 \<rparr> \<rparr>] \<and>
   bucket1 (distribution \<lparr> userId = js ''u1'', totalGames = 3, averageScore = 13 / 3, distribution = \<lparr> bucket1 = 0, bucket2 = 1, bucket3 = 0, bucket4 = 1, bucket5 = 0, bucket6 = 0, bucketX = 1 \<rparr> \<rparr>) + bucket2 (distribution \<lparr> userId = js ''u1'', totalGames = 3, averageScore = 13 / 3, distribution = \<lparr> bucket1 = 0, bucket2 = 1, bucket3 = 0, bucket4 = 1, bucket5 = 0, bucket6 = 0, bucketX = 1 \<rparr> \<rparr>) + bucket3 (distribution \<lparr> userId = js ''u1'', totalGames = 3, averageScore = 13 / 3, distribution = \<lparr> bucket1 = 0, bucket2 = 1, bucket3 = 0, bucket4 = 1, bucket5 = 0, bucket6 = 0, bucketX = 1 \<rparr> \<rparr>) +
   bucket4 (distribution \<lparr> userId = js ''u1'', totalGames = 3, averageScore = 13 / 3, distribution = \<lparr> bucket1 = 0, bucket2 = 1, bucket3 = 0, bucket4 = 1, bucket5 = 0, bucket6 = 0, bucketX = 1 \<rparr> \<rparr>) + bucket5 (distribution \<lparr> userId = js ''u1'', totalGames = 3, averageScore = 13 / 3, distribution = \<lparr> bucket1 = 0, bucket2 = 1, bucket3 = 0, bucket4 = 1, bucket5 = 0, bucket6 = 0, bucketX = 1 \<rparr> \<rparr>) + bucket6 (distribution \<lparr> userId = js ''u1'', totalGames = 3, averageScore = 13 / 3, distribution = \<lparr> bucket1 = 0, bucket2 = 1, bucket3 = 0, bucket4 = 1, bucket5 = 0, bucket6 = 0, bucketX = 1 \<rparr> \<rparr>) +
   bucketX (distribution \<lparr> userId = js ''u1'', totalGames = 3, averageScore = 13 / 3, distribution = \<lparr> bucket1 = 0, bucket2 = 1, bucket3 = 0, bucket4 = 1, bucket5 = 0, bucket6 = 0, bucketX = 1 \<rparr> \<rparr>) = totalGames \<lparr> userId = js ''u1'', totalGames = 3, averageScore = 13 / 3, distribution = \<lparr> bucket1 = 0, bucket2 = 1, bucket3 = 0, bucket4 = 1, bucket5 = 0, bucket6 = 0, bucketX = 1 \<rparr> \<rparr> \<and>
   totalGames \<lparr> userId = js ''u1'', totalGames = 3, averageScore = 13 / 3, distribution = \<lparr> bucket1 = 0, bucket2 = 1, bucket3 = 0, bucket4 = 1, bucket5 = 0, bucket6 = 0, bucketX = 1 \<rparr> \<rparr> =
     length (filter (\<lambda>r. 0 \<le> timestamp r \<and> timestamp r \<le> 10)
               (scores_of [(js ''u1'', [\<lparr> wordleNumber = Num 500, score = 2, maxAttempts = Num 6, hardMode = False, timestamp = 5 \<rparr>, \<lparr> wordleNumber = Num 501, score = 4, maxAttempts = Num 6, hardMode = False, timestamp = 6 \<rparr>, \<lparr> wordleNumber = Num 502, score = 7, maxAttempts = Num 6, hardMode = False, timestamp = 7 \<rparr>, \<lparr> wordleNumber = Num 503, score = 3, maxAttempts = Num 6, hardMode = False, timestamp = 100 \<rparr>])] (userId \<lparr> userId = js ''u1'', totalGames = 3, averageScore = 13 / 3, distribution = \<lparr> bucket1 = 0, bucket2 = 1, bucket3 = 0, bucket4 = 1, bucket5 = 0, bucket6 = 0, bucketX = 1 \<rparr> \<rparr>)))"
proof -
  have d: "distinct (map fst [(js ''u1'', [\<lparr> wordleNumber = Num 500, score = 2, maxAttempts = Num 6, hardMode = False, timestamp = 5 \<rparr>, \<lparr> wordleNumber = Num 501, score = 4, maxAttempts = Num 6, hardMode = False, timestamp = 6 \<rparr>, \<lparr> wordleNumber = Num 502, score = 7, maxAttempts = Num 6, hardMode = False, timestamp = 7 \<rparr>, \<lparr> wordleNumber = Num 503, score = 3, maxAttempts = Num 6, hardMode = False, timestamp = 100 \<rparr>])])" by simp
  have c: "calculateStats (\<lambda>t n. of_int t / of_nat n) 0 10 [(js ''u1'', [\<lparr> wordleNumber = Num 500, score = 2, maxAttempts = Num 6, hardMode = False, timestamp = 5 \<rparr>, \<lparr> wordleNumber = Num 501, score = 4, maxAttempts = Num 6, hardMode = False, timestamp = 6 \<rparr>, \<lparr> wordleNumber = Num 502, score = 7, maxAttempts = Num 6, hardMode = False, timestamp = 7 \<rparr>, \<lparr> wordleNumber = Num 503, score = 3, maxAttempts = Num 6, hardMode = False, timestamp = 100 \<rparr>])] =
     [\<lparr> userId = js ''u1'', totalGames = 3, averageScore = 13 / 3, distribution = \<lparr> bucket1 = 0, bucket2 = 1, bucket3 = 0, bucket4 = 1, bucket5 = 0, bucket6 = 0, bucketX = 1 \<rparr> \<rparr>]"
    by (simp add: calculateStats_def sort_by_def tally_def)
  then have m: "\<lparr> userId = js ''u1'', totalGames = 3, averageScore = 13 / 3, distribution = \<lparr> bucket1 = 0, bucket2 = 1, bucket3 = 0, bucket4 = 1, bucket5 = 0, bucket6 = 0, bucketX = 1 \<rparr> \<rparr> \<in> set (calculateStats (\<lambda>t n. of_int t / of_nat n) 0 10 [(js ''u1'', [\<lparr> wordleNumber = Num 500, score = 2, maxAttempts = Num 6, hardMode = False, timestamp = 5 \<rparr>, \<lparr> wordleNumber = Num 501, score = 4, maxAttempts = Num 6, hardMode = False, timestamp = 6 \<rparr>, \<lparr> wordleNumber = Num 502, score = 7, maxAttempts = Num 6, hardMode = False, timestamp = 7 \<rparr>, \<lparr> wordleNumber = Num 503, score = 3, maxAttempts = Num 6, hardMode = False, timestamp = 100 \<rparr>])])"
    by simp
  from stats_buckets_and_total [OF d m] d c show ?thesis by blast
qed

text \<open>
  C8. For every window, the result of \<^verbatim>\<open>calculateStats\<close> is in ascending order of
  \<open>averageScore\<close>, and its first entry (rank 0) has the lowest average of all.
\<close>

theorem stats_sorted_by_average:
  "sorted (map averageScore (calculateStats average startDate endDate store0)) \<and>
   (\<forall>i < length (calculateStats average startDate endDate store0).
      averageScore (calculateStats average startDate endDate store0 ! 0) \<le>
      averageScore (calculateStats average startDate endDate store0 ! i))"
proof -
  let ?stats = "calculateStats average startDate endDate store0"
  have s: "sorted (map averageScore ?stats)"
    unfolding calculateStats_def by (rule sorted_sort_by)
  have "averageScore (?stats ! 0) \<le> averageScore (?stats ! i)" if "i < length ?stats" for i
  proof -
    from that have "0 < length ?stats" by linarith
    with sorted_nth_mono [OF s, of 0 i] that show ?thesis by simp
  qed
  with s show ?thesis by blast
qed

theorem stats_sorted_by_average_witness:
  "calculateStats (\<lambda>t n. of_int t / of_nat n) 0 10 [(js ''u1'', [\<lparr> wordleNumber = Num 500, score = 2, maxAttempts = Num 6, hardMode = False, timestamp = 5 \<rparr>, \<lparr> wordleNumber = Num 501, score = 4, maxAttempts = Num 6, hardMode = False, timestamp = 6 \<rparr>, \<lparr> wordleNumber = Num 502, score = 7, maxAttempts = Num 6, hardMode = False, timestamp = 7 \<rparr>, \<lparr> wordleNumber = Num 503, score = 3, maxAttempts = Num 6, hardMode = False, timestamp = 100 \<rparr>]), (js ''u2'', [\<lparr> wordleNumber = Num 500, score = 2, maxAttempts = Num 6, hardMode = False, timestamp = 5 \<rparr>])] =
     [\<lparr> userId = js ''u2'', totalGames = 1, averageScore = 2, distribution = \<lparr> bucket1 = 0, bucket2 = 1, bucket3 = 0, bucket4 = 0, bucket5 = 0, bucket6 = 0, bucketX = 0 \<rparr> \<rparr>,
      \<lparr> userId = js ''u1'', totalGames = 3, averageScore = 13 / 3, distribution = \<lparr> bucket1 = 0, bucket2 = 1, bucket3 = 0, bucket4 = 1, bucket5 = 0, bucket6 = 0, bucketX = 1 \<rparr> \<rparr>] \<and>
   sorted (map averageScore (calculateStats (\<lambda>t n. of_int t / of_nat n) 0 10 [(js ''u1'', [\<lparr> wordleNumber = Num 500, score = 2, maxAttempts = Num 6, hardMode = False, timestamp = 5 \<rparr>, \<lparr> wordleNumber = Num 501, score = 4, maxAttempts = Num 6, hardMode = False, timestamp = 6 \<rparr>, \<lparr> wordleNumber = Num 502, score = 7, maxAttempts = Num 6, hardMode = False, timestamp = 7 \<rparr>, \<lparr> wordleNumber = Num 503, score = 3, maxAttempts = Num 6, hardMode = False, timestamp = 100 \<rparr>]), (js ''u2'', [\<lparr> wordleNumber = Num 500, score = 2, maxAttempts = Num 6, hardMode = False, timestamp = 5 \<rparr>])])) \<and>
   averageScore (calculateStats (\<lambda>t n. of_int t / of_nat n) 0 10 [(js ''u1'', [\<lparr> wordleNumber = Num 500, score = 2, maxAttempts = Num 6, hardMode = False, timestamp = 5 \<rparr>, \<lparr> wordleNumber = Num 501, score = 4, maxAttempts = Num 6, hardMode = False, timestamp = 6 \<rparr>, \<lparr> wordleNumber = Num 502, score = 7, maxAttempts = Num 6, hardMode = False, timestamp = 7 \<rparr>, \<lparr> wordleNumber = Num 503, score = 3, maxAttempts = Num 6, hardMode = False, timestamp = 100 \<rparr>]), (js ''u2'', [\<lparr> wordleNumber = Num 500, score = 2, maxAttempts = Num 6, hardMode = False, timestamp = 5 \<rparr>])] ! 0) \<le>
   averageScore (calculateStats (\<lambda>t n. of_int t / of_nat n) 0 10 [(js ''u1'', [\<lparr> wordleNumber = Num 500, score = 2, maxAttempts = Num 6, hardMode = False, timestamp = 5 \<rparr>, \<lparr> wordleNumber = Num 501, score = 4, maxAttempts = Num 6, hardMode = False, timestamp = 6 \<rparr>, \<lparr> wordleNumber = Num 502, score = 7, maxAttempts = Num 6, hardMode = False, timestamp = 7 \<rparr>, \<lparr> wordleNumber = Num 503, score = 3, maxAttempts = Num 6, hardMode = False, timestamp = 100 \<rparr>]), (js ''u2'', [\<lparr> wordleNumber = Num 500, score = 2, maxAttempts = Num 6, hardMode = False, timestamp = 5 \<rparr>])] ! 1)"
proof -
  have c: "calculateStats (\<lambda>t n. of_int t / of_nat n) 0 10 [(js ''u1'', [\<lparr> wordleNumber = Num 500, score = 2, maxAttempts = Num 6, hardMode = False, timestamp = 5 \<rparr>, \<lparr> wordleNumber = Num 501, score = 4, maxAttempts = Num 6, hardMode = False, timestamp = 6 \<rparr>, \<lparr> wordleNumber = Num 502, score = 7, maxAttempts = Num 6, hardMode = False, timestamp = 7 \<rparr>, \<lparr> wordleNumber = Num 503, score = 3, maxAttempts = Num 6, hardMode = False, timestamp = 100 \<rparr>]), (js ''u2'', [\<lparr> wordleNumber = Num 500, score = 2, maxAttempts = Num 6, hardMode = False, timestamp = 5 \<rparr>])] =
     [\<lparr> userId = js ''u2'', totalGames = 1, averageScore = 2, distribution = \<lparr> bucket1 = 0, bucket2 = 1, bucket3 = 0, bucket4 = 0, bucket5 = 0, bucket6 = 0, bucketX = 0 \<rparr> \<rparr>,
      \<lparr> userId = js ''u1'', totalGames = 3, averageScore = 13 / 3, distribution = \<lparr> bucket1 = 0, bucket2 = 1, bucket3 = 0, bucket4 = 1, bucket5 = 0, bucket6 = 0, bucketX = 1 \<rparr> \<rparr>]"
    by (simp add: calculateStats_def sort_by_def tally_def)
  then have l: "1 < length (calculateStats (\<lambda>t n. of_int t / of_nat n) 0 10 [(js ''u1'', [\<lparr> wordleNumber = Num 500, score = 2, maxAttempts = Num 6, hardMode = False, timestamp = 5 \<rparr>, \<lparr> wordleNumber = Num 501, score = 4, maxAttempts = Num 6, hardMode = False, timestamp = 6 \<rparr>, \<lparr> wordleNumber = Num 502, score = 7, maxAttempts = Num 6, hardMode = False, timestamp = 7 \<rparr>, \<lparr> wordleNumber = Num 503, score = 3, maxAttempts = Num 6, hardMode = False, timestamp = 100 \<rparr>]), (js ''u2'', [\<lparr> wordleNumber = Num 500, score = 2, maxAttempts = Num 6, hardMode = False, timestamp = 5 \<rparr>])])"
    by simp
  from stats_sorted_by_average [of "(\<lambda>t n. of_int t / of_nat n)" 0 10 "[(js ''u1'', [\<lparr> wordleNumber = Num 500, score = 2, maxAttempts = Num 6, hardMode = False, timestamp = 5 \<rparr>, \<lparr> wordleNumber = Num 501, score = 4, maxAttempts = Num 6, hardMode = False, timestamp = 6 \<rparr>, \<lparr> wordleNumber = Num 502, score = 7, maxAttempts = Num 6, hardMode = False, timestamp = 7 \<rparr>, \<lparr> wordleNumber = Num 503, score = 3, maxAttempts = Num 6, hardMode = False, timestamp = 100 \<rparr>]), (js ''u2'', [\<lparr> wordleNumber = Num 500, score = 2, maxAttempts = Num 6, hardMode = False, timestamp = 5 \<rparr>])]"] l c
  show ?thesis by blast
qed

text \<open>
  C9. A period that is none of \<^verbatim>\<open>today\<close>, \<^verbatim>\<open>month\<close>, \<^verbatim>\<open>three_months\<close>, \<^verbatim>\<open>six_months\<close> and
  \<^verbatim>\<open>year\<close> matches no case of the \<^verbatim>\<open>switch\<close>: the window passed to \<^verbatim>\<open>calculateStats\<close> is
  the pair of the two readings of the clock, with no calendar operation applied to its
  start.
\<close>

theorem unknown_period_keeps_now:
  assumes "periodChoice \<notin> set (map js [''today'', ''month'', ''three_months'', ''six_months'', ''year''])"
  shows "period_window cal periodChoice now1 now2 = (now1, now2)"
  using assms by (simp add: period_window_def)

theorem unknown_period_keeps_now_witness:
  "js ''week'' \<notin> set (map js [''today'', ''month'', ''three_months'', ''six_months'', ''year'']) \<and>
   period_window \<lparr> setHours0 = (\<lambda>d. d - d mod 86400000), monthsBack = (\<lambda>n d. d - int n * 2592000000), yearsBack = (\<lambda>n d. d - int n * 31536000000) \<rparr> (js ''week'') 1000 1001 = (1000, 1001)"
proof -
  have h: "js ''week'' \<notin> set (map js [''today'', ''month'', ''three_months'', ''six_months'', ''year''])"
    by (simp add: js_def)
  from unknown_period_keeps_now [OF h] h show ?thesis by blast
qed

end
